theory Spec2Isabelle
  imports Complex_Main "HOL-Library.Multiset"
begin

section \<open>Strings and the library functions main.go calls\<close>

text \<open>
  Go strings are byte sequences, so a Go \<^verbatim>\<open>string\<close> is a \<^typ>\<open>string\<close> here
  (\<^typ>\<open>char\<close> has exactly the 256 byte values). The functions of this section are
  those of the Go standard library that \<^verbatim>\<open>mostAcceptable\<close> and
  \<^verbatim>\<open>toJSON\<close> call (strings, unicode/utf8, mime, strconv, slices,
  encoding/json); they are written after the library's code, with its names.
\<close>

text \<open>
  The errors: those of \<^verbatim>\<open>mime.ParseMediaType\<close> and of
  \<^verbatim>\<open>strconv.ParseFloat\<close>, the errors the file systems and the templates
  report at startup (\<open>Reported\<close>, with the message), and an error wrapped with
  \<^verbatim>\<open>fmt.Errorf("...: %w", err)\<close>.
\<close>

datatype error =
  NoMediaType | ExpectedSlash | ExpectedTokenAfterSlash | UnexpectedContent
| ErrInvalidMediaParameter | DuplicateParameterName
| ErrSyntax | ErrRange
| Reported string
| Wrapped string error

abbreviation byte :: "char \<Rightarrow> nat" where
  "byte c \<equiv> of_char c"

subsection \<open>unicode/utf8 and unicode\<close>

definition RuneError :: nat where
  "RuneError = 0xFFFD"

text \<open>
  \<^verbatim>\<open>utf8.DecodeRuneInString\<close>: the rune at the start of \<open>s\<close> and its width in
  bytes; an invalid or incomplete encoding gives \<open>(RuneError, 1)\<close>. The first byte
  fixes the width and the range the second byte must lie in (the library's
  \<^verbatim>\<open>first\<close> and \<^verbatim>\<open>acceptRanges\<close> tables).
\<close>

definition DecodeRuneInString :: "string \<Rightarrow> nat \<times> nat" where
  "DecodeRuneInString s =
    (if s = [] then (RuneError, 0)
     else let s0 = byte (s ! 0) in
       if s0 < 0x80 then (s0, 1)
       else if s0 < 0xC2 \<or> 0xF4 < s0 then (RuneError, 1)
       else
         let sz = (if s0 < 0xE0 then 2 else if s0 < 0xF0 then 3 else 4 :: nat);
             lo = (if s0 = 0xE0 then 0xA0 else if s0 = 0xF0 then 0x90 else 0x80 :: nat);
             hi = (if s0 = 0xED then 0x9F else if s0 = 0xF4 then 0x8F else 0xBF :: nat)
         in
           if length s < sz then (RuneError, 1)
           else let s1 = byte (s ! 1) in
             if s1 < lo \<or> hi < s1 then (RuneError, 1)
             else if sz \<le> 2 then ((s0 mod 0x20) * 0x40 + s1 mod 0x40, 2)
             else let s2 = byte (s ! 2) in
               if s2 < 0x80 \<or> 0xBF < s2 then (RuneError, 1)
               else if sz \<le> 3 then
                 ((s0 mod 0x10) * 0x1000 + (s1 mod 0x40) * 0x40 + s2 mod 0x40, 3)
               else let s3 = byte (s ! 3) in
                 if s3 < 0x80 \<or> 0xBF < s3 then (RuneError, 1)
                 else ((s0 mod 8) * 0x40000 + (s1 mod 0x40) * 0x1000
                        + (s2 mod 0x40) * 0x40 + s3 mod 0x40, 4))"

text \<open>
  \<^verbatim>\<open>utf8.DecodeLastRuneInString\<close>: the rune at the end of \<open>s\<close>. It walks back
  over at most three bytes to the nearest byte that is not a continuation byte and
  decodes forward from there; the rune counts only if it ends where \<open>s\<close> ends.
\<close>

definition RuneStart :: "char \<Rightarrow> bool" where
  "RuneStart b = (\<not> (0x80 \<le> byte b \<and> byte b < 0xC0))"

definition DecodeLastRuneInString :: "string \<Rightarrow> nat \<times> nat" where
  "DecodeLastRuneInString s =
    (let n = length s in
     if n = 0 then (RuneError, 0)
     else if byte (s ! (n - 1)) < 0x80 then (byte (s ! (n - 1)), 1)
     else
       let start =
             (if 2 \<le> n \<and> RuneStart (s ! (n - 2)) then n - 2
              else if 3 \<le> n \<and> RuneStart (s ! (n - 3)) then n - 3
              else if 4 \<le> n \<and> RuneStart (s ! (n - 4)) then n - 4
              else if 5 \<le> n then n - 5
              else 0);
           d = DecodeRuneInString (drop start s)
       in if start + snd d \<noteq> n then (RuneError, 1) else d)"

text \<open>\<^verbatim>\<open>unicode.IsSpace\<close>: the runes with the White_Space property.\<close>

definition IsSpace :: "nat \<Rightarrow> bool" where
  "IsSpace r =
    ((0x09 \<le> r \<and> r \<le> 0x0D) \<or> r = 0x20 \<or> r = 0x85 \<or> r = 0xA0 \<or> r = 0x1680
     \<or> (0x2000 \<le> r \<and> r \<le> 0x200A) \<or> r = 0x2028 \<or> r = 0x2029 \<or> r = 0x202F
     \<or> r = 0x205F \<or> r = 0x3000)"

subsection \<open>strings\<close>

text \<open>
  \<^verbatim>\<open>strings.Split(s, sep)\<close> for a separator of one byte: the pieces between the
  separators, one more than there are separators (so the empty string gives one
  empty piece).
\<close>

fun Split :: "string \<Rightarrow> char \<Rightarrow> string list" where
  "Split [] sep = [[]]"
| "Split (c # cs) sep =
     (if c = sep then [] # Split cs sep
      else (case Split cs sep of [] \<Rightarrow> [[c]] | t # ts \<Rightarrow> (c # t) # ts))"

text \<open>
  \<^verbatim>\<open>strings.TrimLeftFunc(s, unicode.IsSpace)\<close>,
  \<^verbatim>\<open>strings.TrimRightFunc(s, unicode.IsSpace)\<close> and \<^verbatim>\<open>strings.TrimSpace\<close>.
  A decoded rune is at least one byte wide, so the recursion drops \<open>w - 1\<close>
  bytes beside the first (the last) one.
\<close>

fun TrimLeftSpace :: "string \<Rightarrow> string" where
  "TrimLeftSpace [] = []"
| "TrimLeftSpace (c # cs) =
     (case DecodeRuneInString (c # cs) of
        (r, w) \<Rightarrow> if IsSpace r then TrimLeftSpace (drop (w - 1) cs) else c # cs)"

function TrimRightSpace :: "string \<Rightarrow> string" where
  "TrimRightSpace s =
     (if s = [] then []
      else (case DecodeLastRuneInString s of
        (r, w) \<Rightarrow>
          if IsSpace r then TrimRightSpace (butlast (take (length s - (w - 1)) s))
          else s))"
  by pat_completeness auto
termination
  by (relation "measure length") auto

definition TrimSpace :: "string \<Rightarrow> string" where
  "TrimSpace s = TrimRightSpace (TrimLeftSpace s)"

text \<open>
  \<^verbatim>\<open>strings.ToLower\<close>. Two runes outside ASCII have an ASCII lower case: U+0130
  (bytes C4 B0) becomes \<open>i\<close> and U+212A (bytes E2 84 AA) becomes \<open>k\<close>; both first
  bytes only ever start a rune. The lower case of every other rune outside ASCII is
  again outside ASCII (an invalid byte becomes U+FFFD); such bytes are left as they
  are here, which makes no difference to \<open>ParseMediaType\<close> below: it refuses a media
  type with a byte outside ASCII, whatever that byte is.
\<close>

definition lowerByte :: "char \<Rightarrow> char" where
  "lowerByte c = (if 0x41 \<le> byte c \<and> byte c \<le> 0x5A then char_of (byte c + 0x20) else c)"

fun ToLower :: "string \<Rightarrow> string" where
  "ToLower [] = []"
| "ToLower (c # cs) =
     (if DecodeRuneInString (c # cs) = (0x130, 2) then CHR ''i'' # ToLower (drop 1 cs)
      else if DecodeRuneInString (c # cs) = (0x212A, 3) then CHR ''k'' # ToLower (drop 2 cs)
      else lowerByte c # ToLower cs)"

definition HasPrefix :: "string \<Rightarrow> string \<Rightarrow> bool" where
  "HasPrefix s p = (take (length p) s = p)"

text \<open>\<^verbatim>\<open>before, _, found := strings.Cut(s, sep)\<close> for a separator of one byte.\<close>

definition CutBefore :: "string \<Rightarrow> char \<Rightarrow> string \<times> bool" where
  "CutBefore s sep = (takeWhile (\<lambda>c. c \<noteq> sep) s, sep \<in> set s)"

text \<open>\<^verbatim>\<open>strconv.Itoa\<close> on a number that is not negative.\<close>

fun Itoa :: "nat \<Rightarrow> string" where
  "Itoa n = (if n < 10 then [char_of (48 + n)] else Itoa (n div 10) @ [char_of (48 + n mod 10)])"

subsection \<open>Go maps as association lists\<close>

text \<open>
  A Go \<^verbatim>\<open>map[string]T\<close> that is ranged over is an association list with one
  entry per key; \<open>put\<close> is \<^verbatim>\<open>m[k] = v\<close> and \<^const>\<open>map_of\<close> is the lookup.
\<close>

fun put :: "'k \<Rightarrow> 'v \<Rightarrow> ('k \<times> 'v) list \<Rightarrow> ('k \<times> 'v) list" where
  "put k v [] = [(k, v)]"
| "put k v ((k', v') # m) = (if k = k' then (k, v) # m else (k', v') # put k v m)"

subsection \<open>mime.ParseMediaType\<close>

definition tspecials :: string where
  "tspecials = ''()<>@,;:'' @ [CHR 0x5C, CHR 0x22] @ ''/[]?=''"

definition isTSpecial :: "char \<Rightarrow> bool" where
  "isTSpecial c = (c \<in> set tspecials)"

definition isTokenChar :: "char \<Rightarrow> bool" where
  "isTokenChar c = (0x20 < byte c \<and> byte c < 0x7F \<and> \<not> isTSpecial c)"

text \<open>
  \<^verbatim>\<open>consumeToken\<close>: the longest prefix of token characters, and the rest. The
  library looks for the first rune that is not a token character; a byte outside
  ASCII starts such a rune, so the search is the same byte by byte.
\<close>

definition consumeToken :: "string \<Rightarrow> string \<times> string" where
  "consumeToken v = (takeWhile isTokenChar v, dropWhile isTokenChar v)"

text \<open>
  \<^verbatim>\<open>consumeValue\<close>: a token, or a quoted string. \<open>quotedString\<close> is the loop
  over the bytes after the opening quote: it returns the unquoted value and what
  follows the closing quote, and \<open>None\<close> when a CR or LF comes first or no closing
  quote is found. A backslash before a tspecial stands for that tspecial; any other
  backslash is kept.
\<close>

fun quotedString :: "string \<Rightarrow> (string \<times> string) option" where
  "quotedString [] = None"
| "quotedString (r # t) =
     (if r = CHR 0x22 then Some ([], t)
      else if r = CHR 0x5C \<and> t \<noteq> [] \<and> isTSpecial (hd t) then
        (case quotedString (tl t) of
           None \<Rightarrow> None
         | Some (buffer, rest) \<Rightarrow> Some (hd t # buffer, rest))
      else if r = CHR 0x0D \<or> r = CHR 0x0A then None
      else (case quotedString t of
           None \<Rightarrow> None
         | Some (buffer, rest) \<Rightarrow> Some (r # buffer, rest)))"

definition consumeValue :: "string \<Rightarrow> string \<times> string" where
  "consumeValue v =
     (if v = [] then ([], [])
      else if hd v \<noteq> CHR 0x22 then consumeToken v
      else (case quotedString (tl v) of None \<Rightarrow> ([], v) | Some vr \<Rightarrow> vr))"

text \<open>\<^verbatim>\<open>consumeMediaParam\<close>: one \<open>; name = value\<close>; an empty name reports failure.\<close>

definition consumeMediaParam :: "string \<Rightarrow> string \<times> string \<times> string" where
  "consumeMediaParam v =
     (let rest = TrimLeftSpace v in
      if \<not> HasPrefix rest '';'' then ([], [], v)
      else
        let rest = TrimLeftSpace (tl rest);
            param = ToLower (fst (consumeToken rest));
            rest = snd (consumeToken rest)
        in
          if param = [] then ([], [], v)
          else
            let rest = TrimLeftSpace rest in
            if \<not> HasPrefix rest ''='' then ([], [], v)
            else
              let rest = TrimLeftSpace (tl rest);
                  val = fst (consumeValue rest);
                  rest2 = snd (consumeValue rest)
              in if val = [] \<and> rest2 = rest then ([], [], v) else (param, val, rest2))"

definition checkMediaTypeDisposition :: "string \<Rightarrow> error option" where
  "checkMediaTypeDisposition s =
     (let typ = fst (consumeToken s); rest = snd (consumeToken s) in
      if typ = [] then Some NoMediaType
      else if rest = [] then None
      else if \<not> HasPrefix rest ''/'' then Some ExpectedSlash
      else
        let subtype = fst (consumeToken (tl rest)); rest = snd (consumeToken (tl rest)) in
        if subtype = [] then Some ExpectedTokenAfterSlash
        else if rest \<noteq> [] then Some UnexpectedContent
        else None)"

text \<open>
  \<^verbatim>\<open>percentHexUnescape\<close> and \<^verbatim>\<open>decode2231Enc\<close> (RFC 2231 values:
  \<open>charset'language'percent-encoded\<close>, for the charsets us-ascii and utf-8).
\<close>

definition ishex :: "char \<Rightarrow> bool" where
  "ishex c = ((0x30 \<le> byte c \<and> byte c \<le> 0x39) \<or> (0x61 \<le> byte c \<and> byte c \<le> 0x66)
              \<or> (0x41 \<le> byte c \<and> byte c \<le> 0x46))"

definition unhex :: "char \<Rightarrow> nat" where
  "unhex c =
     (if 0x30 \<le> byte c \<and> byte c \<le> 0x39 then byte c - 0x30
      else if 0x61 \<le> byte c \<and> byte c \<le> 0x66 then byte c - 0x61 + 10
      else if 0x41 \<le> byte c \<and> byte c \<le> 0x46 then byte c - 0x41 + 10
      else 0)"

fun percentHexUnescape :: "string \<Rightarrow> string option" where
  "percentHexUnescape [] = Some []"
| "percentHexUnescape (c # s) =
     (if c \<noteq> CHR ''%'' then map_option ((#) c) (percentHexUnescape s)
      else if length s < 2 \<or> \<not> ishex (s ! 0) \<or> \<not> ishex (s ! 1) then None
      else map_option ((#) (char_of (unhex (s ! 0) * 16 + unhex (s ! 1))))
             (percentHexUnescape (drop 2 s)))"

definition decode2231Enc :: "string \<Rightarrow> string option" where
  "decode2231Enc v =
     (let q = CHR 0x27;
          charset = ToLower (takeWhile (\<lambda>c. c \<noteq> q) v);
          r1 = drop 1 (dropWhile (\<lambda>c. c \<noteq> q) v);
          r2 = drop 1 (dropWhile (\<lambda>c. c \<noteq> q) r1)
      in
        if q \<notin> set v \<or> q \<notin> set r1 then None
        else if charset = [] then None
        else if charset \<noteq> ''us-ascii'' \<and> charset \<noteq> ''utf-8'' then None
        else percentHexUnescape r2)"

text \<open>
  The loop of \<^verbatim>\<open>ParseMediaType\<close> over the parameters. \<open>params\<close> is the map it
  returns; \<open>continuation\<close> collects, under the name before the first \<open>*\<close>, the
  parameters whose name has a \<open>*\<close> (RFC 2231). A name that comes twice with two
  different values is an error.
\<close>

lemma length_TrimLeftSpace: "length (TrimLeftSpace s) \<le> length s"
proof (induction s rule: TrimLeftSpace.induct)
  case 1
  show ?case by simp
next
  case (2 c cs)
  obtain r w where d: "DecodeRuneInString (c # cs) = (r, w)"
    by (cases "DecodeRuneInString (c # cs)")
  show ?case
  proof (cases "IsSpace r")
    case True
    with 2 d have "length (TrimLeftSpace (drop (w - 1) cs)) \<le> length (drop (w - 1) cs)"
      by simp
    with True d show ?thesis by simp
  next
    case False
    with d show ?thesis by simp
  qed
qed

lemma length_consumeToken: "length (snd (consumeToken v)) \<le> length v"
  by (simp add: consumeToken_def length_dropWhile_le)

lemma length_quotedString:
  "quotedString s = Some (b, rest) \<Longrightarrow> length rest \<le> length s"
proof (induction s arbitrary: b rest rule: quotedString.induct)
  case 1
  then show ?case by simp
next
  case (2 r t)
  show ?case
  proof (cases "r = CHR 0x22")
    case True
    with 2 show ?thesis by simp
  next
    case nq: False
    show ?thesis
    proof (cases "r = CHR 0x5C \<and> t \<noteq> [] \<and> isTSpecial (hd t)")
      case True
      with nq 2(3) obtain b' where "quotedString (tl t) = Some (b', rest)"
        by (auto split: option.splits)
      with 2(1) nq True have "length rest \<le> length (tl t)" by blast
      then show ?thesis by simp
    next
      case False
      with nq 2(3) have ncr: "\<not> (r = CHR 0x0D \<or> r = CHR 0x0A)"
        by (auto split: if_splits)
      with nq False 2(3) obtain b' where "quotedString t = Some (b', rest)"
        by (auto split: option.splits if_splits)
      with 2(2) nq False ncr have "length rest \<le> length t" by blast
      then show ?thesis by simp
    qed
  qed
qed

lemma length_consumeValue: "length (snd (consumeValue v)) \<le> length v"
proof (cases "v = [] \<or> hd v \<noteq> CHR 0x22")
  case True
  then show ?thesis
    using length_consumeToken [of v] by (auto simp: consumeValue_def)
next
  case False
  then obtain t where v: "v = CHR 0x22 # t" by (cases v) auto
  show ?thesis
  proof (cases "quotedString t")
    case None
    with v show ?thesis by (simp add: consumeValue_def)
  next
    case (Some vr)
    then have "length (snd vr) \<le> length t"
      using length_quotedString [of t "fst vr" "snd vr"] by simp
    with v Some show ?thesis by (simp add: consumeValue_def)
  qed
qed

lemma length_consumeMediaParam:
  assumes "consumeMediaParam v = (key, val, rest)" and "key \<noteq> []"
  shows "length rest < length v"
proof -
  define r0 where "r0 = TrimLeftSpace v"
  define r1 where "r1 = TrimLeftSpace (tl r0)"
  define r2 where "r2 = TrimLeftSpace (snd (consumeToken r1))"
  define r3 where "r3 = TrimLeftSpace (tl r2)"
  from assms have p: "HasPrefix r0 '';''" and rest: "rest = snd (consumeValue r3)"
    by (auto simp: consumeMediaParam_def Let_def r0_def r1_def r2_def r3_def
             split: if_splits)
  from p have "r0 \<noteq> []" by (auto simp: HasPrefix_def)
  then have "length (tl r0) < length r0" by simp
  moreover have "length r0 \<le> length v"
    unfolding r0_def by (rule length_TrimLeftSpace)
  moreover have "length r1 \<le> length (tl r0)"
    unfolding r1_def by (rule length_TrimLeftSpace)
  moreover have "length r2 \<le> length r1"
    unfolding r2_def
    using length_TrimLeftSpace [of "snd (consumeToken r1)"] length_consumeToken [of r1]
    by linarith
  moreover have "length r3 \<le> length r2"
    unfolding r3_def using length_TrimLeftSpace [of "tl r2"] by simp
  moreover have "length rest \<le> length r3"
    unfolding rest by (rule length_consumeValue)
  ultimately show ?thesis by linarith
qed

lemma paramLoop_shorter:
  "consumeMediaParam (TrimLeftSpace v) = (key, val, rest) \<Longrightarrow> key \<noteq> [] \<Longrightarrow> length rest < length v"
  using length_consumeMediaParam [of "TrimLeftSpace v" key val rest] length_TrimLeftSpace [of v]
  by simp

function paramLoop ::
  "string \<Rightarrow> (string \<rightharpoonup> string) \<Rightarrow> (string \<times> (string \<times> string) list) list
     \<Rightarrow> error + ((string \<rightharpoonup> string) \<times> (string \<times> (string \<times> string) list) list)" where
  "paramLoop v params continuation =
     (if v = [] then Inr (params, continuation)
      else if TrimLeftSpace v = [] then Inr (params, continuation)
      else
        (case consumeMediaParam (TrimLeftSpace v) of
           (key, val, rest) \<Rightarrow>
             if key = [] then
               (if TrimSpace rest = '';'' then Inr (params, continuation)
                else Inl ErrInvalidMediaParameter)
             else if snd (CutBefore key (CHR ''*'')) then
               (let baseName = fst (CutBefore key (CHR ''*''));
                    pmap = (case map_of continuation baseName of
                              None \<Rightarrow> [] | Some m \<Rightarrow> m)
                in
                  if map_of pmap key \<noteq> None \<and> map_of pmap key \<noteq> Some val
                  then Inl DuplicateParameterName
                  else paramLoop rest params (put baseName (put key val pmap) continuation))
             else
               (if params key \<noteq> None \<and> params key \<noteq> Some val
                then Inl DuplicateParameterName
                else paramLoop rest (params(key \<mapsto> val)) continuation)))"
  by pat_completeness auto
termination
  by (relation "measure (\<lambda>(v, params, continuation). length v)")
     (auto dest: paramLoop_shorter paramLoop_shorter [OF sym])

text \<open>
  Stitching the continuations together. For one name, the loop
  \<^verbatim>\<open>for n := 0; ; n++\<close> appends the piece \<open>name*n\<close> or else the encoded piece
  \<open>name*n*\<close> and stops at the first \<open>n\<close> that has neither. Each round rests on a
  key of its own in the piece map, so the loop stops at some \<open>n\<close> not above the
  number of entries; \<open>stitchPieces\<close> walks through that range of \<open>n\<close>.
\<close>

fun stitchPieces :: "string \<Rightarrow> (string \<times> string) list \<Rightarrow> nat list \<Rightarrow> bool \<times> string" where
  "stitchPieces key pieceMap [] = (False, [])"
| "stitchPieces key pieceMap (n # ns) =
     (let simplePart = key @ ''*'' @ Itoa n in
      case map_of pieceMap simplePart of
        Some v \<Rightarrow> (True, v @ snd (stitchPieces key pieceMap ns))
      | None \<Rightarrow>
         (case map_of pieceMap (simplePart @ ''*'') of
            None \<Rightarrow> (False, [])
          | Some v \<Rightarrow>
              (True,
               (if n = 0 then (case decode2231Enc v of Some decv \<Rightarrow> decv | None \<Rightarrow> [])
                else (case percentHexUnescape v of Some decv \<Rightarrow> decv | None \<Rightarrow> []))
               @ snd (stitchPieces key pieceMap ns))))"

fun stitch ::
  "(string \<times> (string \<times> string) list) list \<Rightarrow> (string \<rightharpoonup> string) \<Rightarrow> (string \<rightharpoonup> string)" where
  "stitch [] params = params"
| "stitch ((key, pieceMap) # continuation) params =
     (case map_of pieceMap (key @ ''*'') of
        Some v \<Rightarrow>
          (case decode2231Enc v of
             Some decv \<Rightarrow> stitch continuation (params(key \<mapsto> decv))
           | None \<Rightarrow> stitch continuation params)
      | None \<Rightarrow>
          (case stitchPieces key pieceMap [0 ..< Suc (length pieceMap)] of
             (True, buf) \<Rightarrow> stitch continuation (params(key \<mapsto> buf))
           | (False, buf) \<Rightarrow> stitch continuation params))"

text \<open>
  \<^verbatim>\<open>mime.ParseMediaType\<close>: the media type in lower case without the space
  around it, and the parameters. Every error of the library is an \<open>Inl\<close>.
\<close>

definition ParseMediaType :: "string \<Rightarrow> error + (string \<times> (string \<rightharpoonup> string))" where
  "ParseMediaType v =
     (let base = fst (CutBefore v (CHR '';''));
          mediatype = TrimSpace (ToLower base)
      in
        case checkMediaTypeDisposition mediatype of
          Some err \<Rightarrow> Inl err
        | None \<Rightarrow>
            (case paramLoop (drop (length base) v) Map.empty [] of
               Inl err \<Rightarrow> Inl err
             | Inr (params, continuation) \<Rightarrow> Inr (mediatype, stitch continuation params)))"

subsection \<open>float64 and its comparisons\<close>

text \<open>
  A float64 is NaN, an infinity, or a finite value; every finite float64 is a
  rational number, and Go compares finite values by their numeric value (the two
  zeros compare equal, so one \<open>Finite 0\<close> stands for both). Every comparison
  with NaN is false.
\<close>

datatype float64 = NaN | NegInf | Finite rat | PosInf

fun f64_lt :: "float64 \<Rightarrow> float64 \<Rightarrow> bool" where
  "f64_lt NaN _ = False"
| "f64_lt _ NaN = False"
| "f64_lt NegInf NegInf = False"
| "f64_lt NegInf _ = True"
| "f64_lt (Finite x) (Finite y) = (x < y)"
| "f64_lt (Finite x) PosInf = True"
| "f64_lt (Finite x) NegInf = False"
| "f64_lt PosInf _ = False"

definition f64_gt :: "float64 \<Rightarrow> float64 \<Rightarrow> bool" where
  "f64_gt a b = f64_lt b a"

subsection \<open>strconv.ParseFloat(s, 64)\<close>

text \<open>
  \<^verbatim>\<open>special\<close>: the strings for the infinities (\<open>inf\<close>, \<open>infinity\<close>, with an
  optional sign) and for NaN (\<open>nan\<close>, without sign), in any case. It returns the
  value and the number of bytes it read.
\<close>

fun commonPrefixLenIgnoreCase :: "string \<Rightarrow> string \<Rightarrow> nat" where
  "commonPrefixLenIgnoreCase (c # s) (p # prefix) =
     (if lowerByte c = p then Suc (commonPrefixLenIgnoreCase s prefix) else 0)"
| "commonPrefixLenIgnoreCase s prefix = 0"

definition infinityLen :: "string \<Rightarrow> nat" where
  "infinityLen s =
     (let n = commonPrefixLenIgnoreCase s ''infinity'' in if 3 < n \<and> n < 8 then 3 else n)"

definition special :: "string \<Rightarrow> (float64 \<times> nat) option" where
  "special s =
     (if s = [] then None
      else if hd s = CHR ''+'' \<or> hd s = CHR ''-'' then
        (if infinityLen (tl s) = 3 \<or> infinityLen (tl s) = 8
         then Some (if hd s = CHR ''-'' then NegInf else PosInf, 1 + infinityLen (tl s))
         else None)
      else if hd s = CHR ''i'' \<or> hd s = CHR ''I'' then
        (if infinityLen s = 3 \<or> infinityLen s = 8 then Some (PosInf, infinityLen s) else None)
      else if hd s = CHR ''n'' \<or> hd s = CHR ''N'' then
        (if commonPrefixLenIgnoreCase s ''nan'' = 3 then Some (NaN, 3) else None)
      else None)"

text \<open>
  \<^verbatim>\<open>readFloat\<close>: sign, mantissa digits with at most one point, exponent; in
  base 16 after \<open>0x\<close>, with a binary exponent after \<open>p\<close> that must be there.
  Underscores are read over and checked at the end by \<^verbatim>\<open>underscoreOK\<close>.
  The library keeps the first 19 (16) digits of the mantissa and a flag that more
  followed, and rounds correctly from there; here the mantissa keeps every digit,
  and \<open>round64\<close> below rounds the exact value.
\<close>

definition isDigit :: "char \<Rightarrow> bool" where
  "isDigit c = (0x30 \<le> byte c \<and> byte c \<le> 0x39)"

definition isHexLetter :: "char \<Rightarrow> bool" where
  "isHexLetter c = ((0x61 \<le> byte c \<and> byte c \<le> 0x66) \<or> (0x41 \<le> byte c \<and> byte c \<le> 0x46))"

record mantissaState =
  mantissa :: nat
  nd :: nat
  dp :: int
  sawdot :: bool
  sawdigits :: bool
  underscores :: bool

fun mantissaLoop :: "nat \<Rightarrow> string \<Rightarrow> mantissaState \<Rightarrow> mantissaState \<times> string" where
  "mantissaLoop base [] st = (st, [])"
| "mantissaLoop base (c # s) st =
     (if c = CHR ''_'' then mantissaLoop base s (st\<lparr>underscores := True\<rparr>)
      else if c = CHR ''.'' then
        (if sawdot st then (st, c # s)
         else mantissaLoop base s (st\<lparr>sawdot := True, dp := int (nd st)\<rparr>))
      else if isDigit c then
        (if c = CHR ''0'' \<and> nd st = 0
         then mantissaLoop base s (st\<lparr>sawdigits := True, dp := dp st - 1\<rparr>)
         else mantissaLoop base s
                (st\<lparr>sawdigits := True, nd := nd st + 1,
                    mantissa := mantissa st * base + (byte c - 0x30)\<rparr>))
      else if base = 16 \<and> isHexLetter c then
        mantissaLoop base s
          (st\<lparr>sawdigits := True, nd := nd st + 1, mantissa := mantissa st * 16 + unhex c\<rparr>)
      else (st, c # s))"

text \<open>
  The digits of the exponent; \<open>e\<close> stops growing once it has reached 10000.
  Returns \<open>e\<close>, whether an underscore was seen, and the rest.
\<close>

fun exponentLoop :: "string \<Rightarrow> nat \<Rightarrow> bool \<Rightarrow> nat \<times> bool \<times> string" where
  "exponentLoop [] e us = (e, us, [])"
| "exponentLoop (c # s) e us =
     (if c = CHR ''_'' then exponentLoop s e True
      else if isDigit c then
        exponentLoop s (if e < 10000 then e * 10 + (byte c - 0x30) else e) us
      else (e, us, c # s))"

text \<open>\<^verbatim>\<open>underscoreOK\<close>: an underscore stands only between digits (or after the base prefix).\<close>

datatype saw = SawStart | SawDigit | SawUnderscore | SawOther

fun underscoreLoop :: "bool \<Rightarrow> string \<Rightarrow> saw \<Rightarrow> bool" where
  "underscoreLoop hex [] sw = (sw \<noteq> SawUnderscore)"
| "underscoreLoop hex (c # s) sw =
     (if isDigit c \<or> (hex \<and> isHexLetter c) then underscoreLoop hex s SawDigit
      else if c = CHR ''_'' then
        (if sw \<noteq> SawDigit then False else underscoreLoop hex s SawUnderscore)
      else if sw = SawUnderscore then False
      else underscoreLoop hex s SawOther)"

definition underscoreOK :: "string \<Rightarrow> bool" where
  "underscoreOK s0 =
     (let s = (if s0 \<noteq> [] \<and> (hd s0 = CHR ''-'' \<or> hd s0 = CHR ''+'') then tl s0 else s0) in
      if 2 \<le> length s \<and> s ! 0 = CHR ''0'' \<and> s ! 1 \<in> set ''bBoOxX''
      then underscoreLoop (s ! 1 \<in> set ''xX'') (drop 2 s) SawDigit
      else underscoreLoop False s SawStart)"

text \<open>
  The result of \<open>readFloat\<close>: the sign, and the exact value of the literal as
  \<open>mant * b ^ ex\<close> with \<open>b = 2\<close> for a hexadecimal literal and \<open>b = 10\<close>
  otherwise; and the bytes that were not read. \<open>None\<close> is the library's
  \<^verbatim>\<open>ok = false\<close>.
\<close>

record literal =
  neg :: bool
  hex :: bool
  mant :: nat
  ex :: int

definition readFloat :: "string \<Rightarrow> (literal \<times> string) option" where
  "readFloat s =
     (if s = [] then None
      else
        let ng = (hd s = CHR ''-'');
            s1 = (if hd s = CHR ''+'' \<or> hd s = CHR ''-'' then tl s else s);
            hx = (2 < length s1 \<and> s1 ! 0 = CHR ''0'' \<and> s1 ! 1 \<in> set ''xX'');
            base = (if hx then 16 else 10 :: nat);
            ml = mantissaLoop base (if hx then drop 2 s1 else s1)
                   \<lparr>mantissa = 0, nd = 0, dp = 0, sawdot = False, sawdigits = False,
                    underscores = False\<rparr>;
            st = fst ml;
            s2 = snd ml;
            dp1 = (if sawdot st then dp st else int (nd st));
            dp2 = (if hx then dp1 * 4 else dp1);
            ndm = (if hx then int (nd st) * 4 else int (nd st))
        in
          if \<not> sawdigits st then None
          else if s2 \<noteq> [] \<and> hd s2 \<in> set (if hx then ''pP'' else ''eE'') then
            (let s3 = tl s2;
                 esign = (if s3 \<noteq> [] \<and> hd s3 = CHR ''-'' then -1 else 1 :: int);
                 s4 = (if s3 \<noteq> [] \<and> (hd s3 = CHR ''+'' \<or> hd s3 = CHR ''-'') then tl s3 else s3);
                 el = exponentLoop s4 0 (underscores st);
                 rest = snd (snd el)
             in
               if s3 = [] then None
               else if s4 = [] \<or> \<not> isDigit (hd s4) then None
               else if fst (snd el) \<and> \<not> underscoreOK (take (length s - length rest) s) then None
               else Some (\<lparr>neg = ng, hex = hx, mant = mantissa st,
                           ex = dp2 + int (fst el) * esign - ndm\<rparr>, rest))
          else if hx then None
          else if underscores st \<and> \<not> underscoreOK (take (length s - length s2) s) then None
          else Some (\<lparr>neg = ng, hex = hx, mant = mantissa st, ex = dp2 - ndm\<rparr>, s2))"

text \<open>
  Rounding to float64: the nearest value with a 53-bit mantissa, ties to the even
  mantissa, with exponents from \<open>-1074\<close> (so the subnormal numbers are there);
  a result of \<open>2 ^ 1024\<close> or more is out of range. \<open>round64 a b\<close> rounds
  \<open>a / b\<close> for \<open>b > 0\<close> and returns \<open>None\<close> when it is out of range.
\<close>

fun bitLen :: "nat \<Rightarrow> nat" where
  "bitLen n = (if n = 0 then 0 else Suc (bitLen (n div 2)))"

declare bitLen.simps [simp del]

definition roundHalfEven :: "nat \<Rightarrow> nat \<Rightarrow> nat" where
  "roundHalfEven a b =
     (let d = a div b; r = a mod b in
      if 2 * r < b then d
      else if b < 2 * r then d + 1
      else if even d then d else d + 1)"

definition round64 :: "nat \<Rightarrow> nat \<Rightarrow> rat option" where
  "round64 a b =
     (if a = 0 then Some 0
      else
        let k = int (bitLen a) - int (bitLen b);
            e = (if (if 0 \<le> k then b * 2 ^ nat k \<le> a else b \<le> a * 2 ^ nat (- k))
                 then k else k - 1);
            q = max e (- 1022) - 52;
            m = (if 0 \<le> q then roundHalfEven a (b * 2 ^ nat q)
                 else roundHalfEven (a * 2 ^ nat (- q)) b)
        in
          if 0 \<le> q then
            (if 2 ^ 1024 \<le> m * 2 ^ nat q then None else Some (of_nat (m * 2 ^ nat q)))
          else Some (of_nat m / of_nat (2 ^ nat (- q))))"

text \<open>
  \<^verbatim>\<open>strconv.ParseFloat(s, 64)\<close>: the whole of \<open>s\<close> must be read; a value out
  of range comes with the error \<^verbatim>\<open>ErrRange\<close>, anything that is not a number
  with \<^verbatim>\<open>ErrSyntax\<close>.
\<close>

definition literalValue :: "literal \<Rightarrow> rat option" where
  "literalValue l =
     (let b = (if hex l then 2 else 10 :: nat) in
      if 0 \<le> ex l then round64 (mant l * b ^ nat (ex l)) 1
      else round64 (mant l) (b ^ nat (- ex l)))"

definition ParseFloat :: "string \<Rightarrow> error + float64" where
  "ParseFloat s =
     (case special s of
        Some (val, n) \<Rightarrow> if n \<noteq> length s then Inl ErrSyntax else Inr val
      | None \<Rightarrow>
         (case readFloat s of
            None \<Rightarrow> Inl ErrSyntax
          | Some (l, rest) \<Rightarrow>
              if rest \<noteq> [] then Inl ErrSyntax
              else (case literalValue l of
                      None \<Rightarrow> Inl ErrRange
                    | Some x \<Rightarrow> Inr (Finite (if neg l then - x else x)))))"

section \<open>Content negotiation (main.go)\<close>

subsection \<open>AcceptType and the comparison function of the sort\<close>

record AcceptType =
  MediaType :: string
  RelativeWeight :: float64

text \<open>The function literal passed to \<^verbatim>\<open>slices.SortStableFunc\<close> (main.go:189-197).\<close>

definition byWeight :: "AcceptType \<Rightarrow> AcceptType \<Rightarrow> int" where
  "byWeight a b =
     (if f64_gt (RelativeWeight a) (RelativeWeight b) then -1
      else if f64_lt (RelativeWeight a) (RelativeWeight b) then 1
      else 0)"

subsection \<open>slices.SortStableFunc\<close>

text \<open>
  The library sorts blocks of up to 20 elements by insertion sort:
  \<^verbatim>\<open>
  for i := a + 1; i < b; i++ {
    for j := i; j > a && cmp(data[j], data[j-1]) < 0; j-- {
      data[j], data[j-1] = data[j-1], data[j]
    }
  }
  \<close>
  \<open>sinkLeft cmp x rp\<close> is the inner loop: \<open>rp\<close> holds \<open>data[a..i-1]\<close> from
  right to left (nearest neighbour first), \<open>x\<close> is \<open>data[i]\<close>, and the result is
  \<open>data[a..i]\<close> from right to left. \<open>insertionSortCmpFunc\<close> is the outer loop.
  Slices of more than 20 elements are sorted block by block and the blocks are then
  merged (SymMerge); for a comparison that is a strict weak ordering the outcome is
  the one stable ordering, which this insertion sort computes as well, so
  \<open>SortStableFunc\<close> is the insertion sort at every length. \<open>byWeight\<close> is a
  strict weak ordering on candidates without a NaN weight. With a NaN weight it is
  not, and the merge of more than 20 candidates may then leave them in another order
  than the insertion sort does. The properties below that depend on the order of
  the sorted list assume that no weight is NaN, or are about headers of at most
  three candidates; the others do not depend on the order in which the sort leaves
  the candidates.
\<close>

fun sinkLeft :: "('a \<Rightarrow> 'a \<Rightarrow> int) \<Rightarrow> 'a \<Rightarrow> 'a list \<Rightarrow> 'a list" where
  "sinkLeft cmp x [] = [x]"
| "sinkLeft cmp x (y # rp) =
     (if cmp x y < 0 then y # sinkLeft cmp x rp else x # y # rp)"

definition insertionSortCmpFunc :: "('a \<Rightarrow> 'a \<Rightarrow> int) \<Rightarrow> 'a list \<Rightarrow> 'a list" where
  "insertionSortCmpFunc cmp data = rev (foldl (\<lambda>rp x. sinkLeft cmp x rp) [] data)"

definition SortStableFunc :: "('a \<Rightarrow> 'a \<Rightarrow> int) \<Rightarrow> 'a list \<Rightarrow> 'a list" where
  "SortStableFunc cmp data = insertionSortCmpFunc cmp data"

subsection \<open>The support table (main.go:199-211)\<close>

text \<open>
  The loop over the sorted candidates returns at the first one whose media type is a
  case label of the switch; when it runs to the end, the function returns
  \<open>text/plain\<close>.
\<close>

fun firstSupported :: "AcceptType list \<Rightarrow> string" where
  "firstSupported [] = ''text/plain''"
| "firstSupported (a # as) =
     (if MediaType a = ''text/plain'' \<or> MediaType a = ''*/*'' then ''text/plain''
      else if MediaType a = ''text/html'' \<or> MediaType a = ''application/xhtml+xml''
        then ''text/html''
      else if MediaType a = ''application/json'' then ''application/json''
      else firstSupported as)"

subsection \<open>mostAcceptable (main.go:170-212)\<close>

text \<open>
  The loop over the pieces of the header (main.go:174-186): a piece that
  \<open>ParseMediaType\<close> refuses is passed over; the weight is 1.0 unless
  \<open>ParseFloat\<close> accepts the parameter \<open>q\<close> (a missing key of a Go map reads as
  the empty string).
\<close>

definition lookup :: "(string \<rightharpoonup> string) \<Rightarrow> string \<Rightarrow> string" where
  "lookup params k = (case params k of None \<Rightarrow> [] | Some v \<Rightarrow> v)"

fun acceptableLoop :: "string list \<Rightarrow> AcceptType list" where
  "acceptableLoop [] = []"
| "acceptableLoop (v # options) =
     (case ParseMediaType v of
        Inl err \<Rightarrow> acceptableLoop options
      | Inr (mediatype, params) \<Rightarrow>
          \<lparr>MediaType = mediatype,
           RelativeWeight =
             (case ParseFloat (lookup params ''q'') of
                Inr val \<Rightarrow> val
              | Inl err \<Rightarrow> Finite 1)\<rparr>
          # acceptableLoop options)"

definition mostAcceptable :: "string \<Rightarrow> string" where
  "mostAcceptable accept =
     firstSupported (SortStableFunc byWeight (acceptableLoop (Split accept (CHR '',''))))"

subsection \<open>The license handler (main.go:118-134)\<close>

text \<open>
  \<^verbatim>\<open>r.Header.Get("Accept")\<close> is the first value of the header, or the empty
  string when the request has none. The handler writes one of the three bodies
  rendered at startup; a body written without \<^verbatim>\<open>WriteHeader\<close> goes out with
  status 200. \<^verbatim>\<open>http.Error\<close> sets its own content type and ends the message
  with a newline.
\<close>

record response =
  status :: nat
  contentType :: string
  body :: string

definition headerGet :: "string list \<Rightarrow> string" where
  "headerGet vs = (case vs of [] \<Rightarrow> [] | v # _ \<Rightarrow> v)"

definition licenseHandler :: "string \<Rightarrow> string \<Rightarrow> string \<Rightarrow> string list \<Rightarrow> response" where
  "licenseHandler plainData htmlData jsonData acceptHeader =
     (let mediatype = mostAcceptable (headerGet acceptHeader) in
      if mediatype = ''text/plain'' then
        \<lparr>status = 200, contentType = ''text/plain'', body = plainData\<rparr>
      else if mediatype = ''text/html'' then
        \<lparr>status = 200, contentType = ''text/html'', body = htmlData\<rparr>
      else if mediatype = ''application/json'' then
        \<lparr>status = 200, contentType = ''application/json'', body = jsonData\<rparr>
      else
        \<lparr>status = 406, contentType = ''text/plain; charset=utf-8'',
         body = ''unrecognized media type: '' @ mediatype @ [CHR 0x0A]\<rparr>)"

subsection \<open>encoding/json: json.Marshal of a LicenseData\<close>

record LicenseData =
  Title :: string
  Text :: string
  URL :: string

text \<open>
  \<^verbatim>\<open>appendString\<close> with \<^verbatim>\<open>escapeHTML\<close> set, as \<^verbatim>\<open>json.Marshal\<close> calls
  it. An ASCII byte is written as it is when it is in the library's
  \<^verbatim>\<open>htmlSafeSet\<close>: the bytes from 0x20 on but the quote, the backslash and
  \<open><\<close>, \<open>>\<close>, \<open>&\<close>. The other ASCII bytes are escaped. A byte from 0x80
  on starts a rune: an invalid encoding is written as the escape of U+FFFD (a
  backslash and \<open>ufffd\<close>), the runes U+2028 and U+2029 as their escapes
  (\<open>u2028\<close>, \<open>u2029\<close>), every other rune as its bytes. (A version of the
  library that writes the three bytes of U+FFFD themselves in place of the escape
  gives a text that decodes to the same string.)
\<close>

definition htmlSafe :: "char \<Rightarrow> bool" where
  "htmlSafe b =
     (0x20 \<le> byte b \<and> byte b < 0x80 \<and> b \<noteq> CHR 0x22 \<and> b \<noteq> CHR 0x5C
      \<and> b \<noteq> CHR ''<'' \<and> b \<noteq> CHR ''>'' \<and> b \<noteq> CHR ''&'')"

definition hexDigit :: "nat \<Rightarrow> char" where
  "hexDigit n = ''0123456789abcdef'' ! (n mod 16)"

definition escapeByte :: "char \<Rightarrow> string" where
  "escapeByte b =
     (if b = CHR 0x5C \<or> b = CHR 0x22 then [CHR 0x5C, b]
      else if b = CHR 0x08 then [CHR 0x5C, CHR ''b'']
      else if b = CHR 0x0C then [CHR 0x5C, CHR ''f'']
      else if b = CHR 0x0A then [CHR 0x5C, CHR ''n'']
      else if b = CHR 0x0D then [CHR 0x5C, CHR ''r'']
      else if b = CHR 0x09 then [CHR 0x5C, CHR ''t'']
      else [CHR 0x5C, CHR ''u'', CHR ''0'', CHR ''0'', hexDigit (byte b div 16),
            hexDigit (byte b mod 16)])"

fun appendStringBody :: "string \<Rightarrow> string" where
  "appendStringBody [] = []"
| "appendStringBody (b # src) =
     (if byte b < 0x80 then
        (if htmlSafe b then b # appendStringBody src
         else escapeByte b @ appendStringBody src)
      else
        (case DecodeRuneInString (b # src) of
           (c, w) \<Rightarrow>
             if c = RuneError \<and> w = 1 then
               [CHR 0x5C] @ ''ufffd'' @ appendStringBody src
             else if c = 0x2028 \<or> c = 0x2029 then
               [CHR 0x5C] @ ''u202'' @ [hexDigit (c mod 16)]
               @ appendStringBody (drop (w - 1) src)
             else take w (b # src) @ appendStringBody (drop (w - 1) src)))"

definition appendString :: "string \<Rightarrow> string" where
  "appendString src = [CHR 0x22] @ appendStringBody src @ [CHR 0x22]"

text \<open>
  \<^verbatim>\<open>json.Marshal\<close> of a \<open>LicenseData\<close>: an object with the three fields in the
  order of the struct, under the names of their tags, without white space. A struct
  of strings is always marshalled, so the error is never there.
\<close>

definition jsonKey :: "string \<Rightarrow> string" where
  "jsonKey name = [CHR 0x22] @ name @ [CHR 0x22] @ '':''"

definition Marshal :: "LicenseData \<Rightarrow> error + string" where
  "Marshal l =
     Inr (''{'' @ jsonKey ''title'' @ appendString (Title l)
          @ '','' @ jsonKey ''content'' @ appendString (Text l)
          @ '','' @ jsonKey ''url'' @ appendString (URL l) @ ''}'')"

subsection \<open>Startup (main.go:53-163, 214-228)\<close>

text \<open>
  \<^verbatim>\<open>path.Base\<close>, \<^verbatim>\<open>path.Ext\<close> and \<^verbatim>\<open>strings.TrimSuffix\<close>, for the title
  and the URL of a license. (For a title outside ASCII the library's lower case
  changes more runes than \<open>ToLower\<close> above does; nothing below depends on it.)
\<close>

definition Base :: "string \<Rightarrow> string" where
  "Base path =
     (if path = [] then ''.''
      else
        let p = rev (dropWhile (\<lambda>c. c = CHR ''/'') (rev path));
            e = rev (takeWhile (\<lambda>c. c \<noteq> CHR ''/'') (rev p))
        in if e = [] then ''/'' else e)"

definition Ext :: "string \<Rightarrow> string" where
  "Ext path =
     (let e = rev (takeWhile (\<lambda>c. c \<noteq> CHR ''/'') (rev path)) in
      if CHR ''.'' \<in> set e then CHR ''.'' # rev (takeWhile (\<lambda>c. c \<noteq> CHR ''.'') (rev e))
      else [])"

definition TrimSuffix :: "string \<Rightarrow> string \<Rightarrow> string" where
  "TrimSuffix s suffix =
     (if length suffix \<le> length s \<and> drop (length s - length suffix) s = suffix
      then take (length s - length suffix) s else s)"

definition pathToTitle :: "string \<Rightarrow> string" where
  "pathToTitle lpath = TrimSuffix (Base lpath) (Ext lpath)"

definition pathToURL :: "string \<Rightarrow> string" where
  "pathToURL lpath = ''/'' @ ToLower (pathToTitle lpath)"

text \<open>
  The parsed templates are what \<^verbatim>\<open>ExecuteTemplate\<close> does with them:
  \<open>executeLicense\<close> for \<open>license.html.tmpl\<close> (the bytes written, or the error),
  \<open>executeIndex\<close> for \<open>index.html.tmpl\<close> (the bytes written to the buffer, and
  the error if there is one).
\<close>

record templates =
  executeLicense :: "LicenseData \<Rightarrow> error + string"
  executeIndex :: "LicenseData list \<Rightarrow> string \<times> error option"

definition toHTML :: "LicenseData \<Rightarrow> templates \<Rightarrow> error + string" where
  "toHTML l tmpl =
     (case executeLicense tmpl l of
        Inl err \<Rightarrow> Inl (Wrapped ''could not render html template'' err)
      | Inr buf \<Rightarrow> Inr buf)"

definition toJSON :: "LicenseData \<Rightarrow> error + string" where
  "toJSON l =
     (case Marshal l of
        Inl err \<Rightarrow> Inl (Wrapped ''could not marshal JSON'' err)
      | Inr b \<Rightarrow> Inr b)"

definition handlerFor ::
  "string \<Rightarrow> (string \<Rightarrow> error + string) \<Rightarrow> templates
     \<Rightarrow> error + ((string list \<Rightarrow> response) \<times> LicenseData)" where
  "handlerFor lpath licenses tmpl =
     (case licenses lpath of
        Inl err \<Rightarrow> Inl (Wrapped ''could not read license'' err)
      | Inr plainData \<Rightarrow>
          (let l = \<lparr>Title = pathToTitle lpath, Text = plainData, URL = pathToURL lpath\<rparr> in
           case toHTML l tmpl of
             Inl err \<Rightarrow> Inl (Wrapped ''could not render HTML'' err)
           | Inr htmlData \<Rightarrow>
               (case toJSON l of
                  Inl err \<Rightarrow> Inl (Wrapped ''could not render JSON'' err)
                | Inr jsonData \<Rightarrow> Inr (licenseHandler plainData htmlData jsonData, l))))"

text \<open>
  \<^verbatim>\<open>newPublicHandler\<close> executes the index template into a buffer and drops the
  error that \<^verbatim>\<open>ExecuteTemplate\<close> returns (main.go:217); the handler serves the
  buffer at \<open>/\<close>.
\<close>

definition newPublicHandler :: "templates \<Rightarrow> LicenseData list \<Rightarrow> string" where
  "newPublicHandler tmpl supportedLicenses = fst (executeIndex tmpl supportedLicenses)"

text \<open>
  What startup meets: the results of \<^verbatim>\<open>template.ParseFS\<close>, \<^verbatim>\<open>fs.Sub\<close>
  and \<^verbatim>\<open>fs.Glob\<close>, the license files, and \<open>muxRefuses\<close>, which says whether
  \<^verbatim>\<open>ServeMux.Handle\<close> panics on a pattern after the patterns registered before
  it (it does on a pattern that is malformed or in conflict with one of them).
\<close>

record startup =
  parsedTemplates :: "error + templates"
  publicSub :: "error option"
  licenseGlob :: "error + string list"
  licenseFile :: "string \<Rightarrow> error + string"
  muxRefuses :: "string list \<Rightarrow> string \<Rightarrow> bool"

text \<open>
  The handler that \<open>appHandler\<close> returns: the license handlers under their
  patterns, and the page that the handler registered under \<open>/\<close> serves at the
  path \<open>/\<close> (the static files it serves elsewhere are not part of the model).
\<close>

record app =
  routes :: "(string \<times> (string list \<Rightarrow> response)) list"
  indexPage :: string

datatype 'a outcome = Panic string | Failed error | Returned 'a

text \<open>The loop over the license paths (main.go:73-81).\<close>

fun registerLicenses ::
  "string list \<Rightarrow> startup \<Rightarrow> templates \<Rightarrow> (string \<times> (string list \<Rightarrow> response)) list
     \<Rightarrow> LicenseData list
     \<Rightarrow> ((string \<times> (string list \<Rightarrow> response)) list \<times> LicenseData list) outcome" where
  "registerLicenses [] st tmpl mux supportedLicenses = Returned (mux, supportedLicenses)"
| "registerLicenses (lpath # licenses) st tmpl mux supportedLicenses =
     (case handlerFor lpath (licenseFile st) tmpl of
        Inl err \<Rightarrow> Failed (Wrapped ''could not init handler'' err)
      | Inr (h, data) \<Rightarrow>
          if muxRefuses st (map fst mux) (''GET '' @ URL data)
          then Panic (''GET '' @ URL data)
          else registerLicenses licenses st tmpl (mux @ [(''GET '' @ URL data, h)])
                 (supportedLicenses @ [data]))"

definition appHandler :: "startup \<Rightarrow> app outcome" where
  "appHandler st =
     (case parsedTemplates st of
        Inl err \<Rightarrow> Failed (Wrapped ''could not parse templates'' err)
      | Inr tmpl \<Rightarrow>
         (case publicSub st of
            Some err \<Rightarrow> Failed (Wrapped ''could not subsystem public assets'' err)
          | None \<Rightarrow>
             (case licenseGlob st of
                Inl err \<Rightarrow> Failed (Wrapped ''could not glob licenses'' err)
              | Inr licenses \<Rightarrow>
                 (case registerLicenses licenses st tmpl [] [] of
                    Panic p \<Rightarrow> Panic p
                  | Failed err \<Rightarrow> Failed err
                  | Returned (mux, supportedLicenses) \<Rightarrow>
                      if muxRefuses st (map fst mux) ''/'' then Panic ''/''
                      else Returned
                             \<lparr>routes = mux,
                              indexPage = newPublicHandler tmpl supportedLicenses\<rparr>))))"

subsection \<open>A startup with one license and an index template that fails\<close>

text \<open>
  The license file \<open>licenses/MIT.txt\<close> with the text \<open>MIT License text\<close>; the
  license template renders, the index template writes \<open><ul>\<close> and then fails.
  \<open>mitJSON\<close> is the JSON rendering the specification gives for this license.
\<close>

definition mitLicense :: LicenseData where
  "mitLicense = \<lparr>Title = ''MIT'', Text = ''MIT License text'', URL = ''/mit''\<rparr>"

definition mitJSON :: string where
  "mitJSON = ''{'' @ [CHR 0x22] @ ''title'' @ [CHR 0x22] @ '':'' @ [CHR 0x22] @ ''MIT'' @ [CHR 0x22]
     @ '','' @ [CHR 0x22] @ ''content'' @ [CHR 0x22] @ '':'' @ [CHR 0x22] @ ''MIT License text''
     @ [CHR 0x22] @ '','' @ [CHR 0x22] @ ''url'' @ [CHR 0x22] @ '':'' @ [CHR 0x22] @ ''/mit''
     @ [CHR 0x22] @ ''}''"

definition failingIndex :: templates where
  "failingIndex =
     \<lparr>executeLicense = (\<lambda>l. Inr (''<h1>'' @ Title l @ ''</h1>'')),
      executeIndex = (\<lambda>ls. (''<ul>'', Some (Reported ''index.html.tmpl: cannot evaluate field'')))\<rparr>"

definition indexFails :: startup where
  "indexFails =
     \<lparr>parsedTemplates = Inr failingIndex,
      publicSub = None,
      licenseGlob = Inr [''licenses/MIT.txt''],
      licenseFile = (\<lambda>lpath. Inr ''MIT License text''),
      muxRefuses = (\<lambda>patterns pattern. pattern \<in> set patterns)\<rparr>"

subsection \<open>Decoding JSON\<close>

text \<open>
  \<^verbatim>\<open>utf8.ValidString\<close>, and the string with every byte that does not belong to a
  valid encoding replaced by the three bytes EF BF BD that encode U+FFFD.
\<close>

fun ValidString :: "string \<Rightarrow> bool" where
  "ValidString [] = True"
| "ValidString (b # s) =
     (case DecodeRuneInString (b # s) of
        (c, w) \<Rightarrow> \<not> (c = RuneError \<and> w = 1) \<and> ValidString (drop (w - 1) s))"

fun coerceUTF8 :: "string \<Rightarrow> string" where
  "coerceUTF8 [] = []"
| "coerceUTF8 (b # s) =
     (case DecodeRuneInString (b # s) of
        (c, w) \<Rightarrow>
          if c = RuneError \<and> w = 1 then [CHR 0xEF, CHR 0xBF, CHR 0xBD] @ coerceUTF8 s
          else take w (b # s) @ coerceUTF8 (drop (w - 1) s))"

text \<open>
  Decoding JSON (RFC 8259), as far as the output of \<open>Marshal\<close> needs it: strings
  with all their escapes, and objects whose members are strings. In a string a
  backslash starts an escape: one of the eight escapes of one character, or \<open>u\<close>
  with four hexadecimal digits, where a high surrogate followed by the escape of a
  low surrogate gives the one code point of the pair. A control character is
  refused; every other byte stands for itself. \<open>EncodeRune\<close> is
  \<^verbatim>\<open>utf8.EncodeRune\<close>, the UTF-8 encoding of a code point, that of U+FFFD for a
  surrogate half or a value out of range.
\<close>

definition EncodeRune :: "nat \<Rightarrow> string" where
  "EncodeRune r =
     (if r < 0x80 then [char_of r]
      else if r < 0x800 then [char_of (0xC0 + r div 0x40), char_of (0x80 + r mod 0x40)]
      else if (0xD800 \<le> r \<and> r < 0xE000) \<or> 0x10FFFF < r then [CHR 0xEF, CHR 0xBF, CHR 0xBD]
      else if r < 0x10000 then
        [char_of (0xE0 + r div 0x1000), char_of (0x80 + r div 0x40 mod 0x40),
         char_of (0x80 + r mod 0x40)]
      else
        [char_of (0xF0 + r div 0x40000), char_of (0x80 + r div 0x1000 mod 0x40),
         char_of (0x80 + r div 0x40 mod 0x40), char_of (0x80 + r mod 0x40)])"

definition getu4 :: "string \<Rightarrow> nat option" where
  "getu4 s =
     (if length s < 4 \<or> \<not> list_all ishex (take 4 s) then None
      else Some (unhex (s ! 0) * 0x1000 + unhex (s ! 1) * 0x100 + unhex (s ! 2) * 0x10
                 + unhex (s ! 3)))"

definition unescape :: "char \<Rightarrow> char option" where
  "unescape e =
     (if e = CHR 0x22 \<or> e = CHR 0x5C \<or> e = CHR ''/'' then Some e
      else if e = CHR ''b'' then Some (CHR 0x08)
      else if e = CHR ''f'' then Some (CHR 0x0C)
      else if e = CHR ''n'' then Some (CHR 0x0A)
      else if e = CHR ''r'' then Some (CHR 0x0D)
      else if e = CHR ''t'' then Some (CHR 0x09)
      else None)"

definition lowSurrogateAt :: "string \<Rightarrow> nat option" where
  "lowSurrogateAt s =
     (if take 2 s = [CHR 0x5C, CHR ''u''] then
        (case getu4 (drop 2 s) of
           None \<Rightarrow> None
         | Some r \<Rightarrow> if 0xDC00 \<le> r \<and> r < 0xE000 then Some r else None)
      else None)"

definition prepend :: "string \<Rightarrow> (string \<times> string) option \<Rightarrow> (string \<times> string) option" where
  "prepend p x = (case x of None \<Rightarrow> None | Some (d, rest) \<Rightarrow> Some (p @ d, rest))"

text \<open>
  The part of a JSON string after the opening quote: the decoded string and what
  follows the closing quote.
\<close>

fun jsonStringBody :: "string \<Rightarrow> (string \<times> string) option" where
  "jsonStringBody [] = None"
| "jsonStringBody (c # s) =
     (if c = CHR 0x22 then Some ([], s)
      else if c = CHR 0x5C then
        (case s of
           [] \<Rightarrow> None
         | e # t \<Rightarrow>
            if e = CHR ''u'' then
              (case getu4 t of
                 None \<Rightarrow> None
               | Some r \<Rightarrow>
                  if 0xD800 \<le> r \<and> r < 0xDC00 \<and> lowSurrogateAt (drop 4 t) \<noteq> None then
                    prepend
                      (EncodeRune (0x10000 + (r - 0xD800) * 0x400
                                   + (the (lowSurrogateAt (drop 4 t)) - 0xDC00)))
                      (jsonStringBody (drop 10 t))
                  else prepend (EncodeRune r) (jsonStringBody (drop 4 t)))
            else
              (case unescape e of
                 None \<Rightarrow> None
               | Some d \<Rightarrow> prepend [d] (jsonStringBody t)))
      else if byte c < 0x20 then None
      else prepend [c] (jsonStringBody s))"

definition skipSpace :: "string \<Rightarrow> string" where
  "skipSpace s = dropWhile (\<lambda>c. c = CHR '' '' \<or> c = CHR 0x09 \<or> c = CHR 0x0A \<or> c = CHR 0x0D) s"

definition jsonString :: "string \<Rightarrow> (string \<times> string) option" where
  "jsonString s =
     (case skipSpace s of
        [] \<Rightarrow> None
      | c # t \<Rightarrow> if c = CHR 0x22 then jsonStringBody t else None)"

lemma length_jsonStringBody:
  "jsonStringBody s = Some (d, rest) \<Longrightarrow> length rest < length s"
proof (induction s arbitrary: d rest rule: jsonStringBody.induct)
  case 1
  then show ?case by simp
next
  case (2 c s)
  show ?case
  proof (cases "c = CHR 0x22")
    case True
    with 2(5) show ?thesis by simp
  next
    case nq: False
    show ?thesis
    proof (cases "c = CHR 0x5C")
      case bs: True
      from 2(5) nq bs obtain e t where s: "s = e # t"
        by (cases s) auto
      show ?thesis
      proof (cases "e = CHR ''u''")
        case u: True
        from 2(5) nq bs s u obtain r where r: "getu4 t = Some r"
          by (cases "getu4 t") auto
        show ?thesis
        proof (cases "0xD800 \<le> r \<and> r < 0xDC00 \<and> lowSurrogateAt (drop 4 t) \<noteq> None")
          case True
          with 2(5) nq bs s u r obtain d' where "jsonStringBody (drop 10 t) = Some (d', rest)"
            by (auto simp: prepend_def split: option.splits)
          from 2(1) [OF nq bs s u r True this] show ?thesis using s by simp
        next
          case False
          with 2(5) nq bs s u r obtain d' where "jsonStringBody (drop 4 t) = Some (d', rest)"
            by (auto simp: prepend_def split: option.splits)
          from 2(2) [OF nq bs s u r False this] show ?thesis using s by simp
        qed
      next
        case nu: False
        from 2(5) nq bs s nu obtain x where x: "unescape e = Some x"
          by (cases "unescape e") auto
        with 2(5) nq bs s nu obtain d' where "jsonStringBody t = Some (d', rest)"
          by (auto simp: prepend_def split: option.splits)
        from 2(3) [OF nq bs s nu x this] show ?thesis using s by simp
      qed
    next
      case nb: False
      with 2(5) nq have c20: "\<not> byte c < 0x20"
        by (auto split: if_splits)
      with 2(5) nq nb obtain d' where "jsonStringBody s = Some (d', rest)"
        by (auto simp: prepend_def split: option.splits)
      from 2(4) [OF nq nb c20 this] show ?thesis by simp
    qed
  qed
qed

lemma length_jsonString: "jsonString s = Some (d, rest) \<Longrightarrow> length rest < length s"
proof -
  assume a: "jsonString s = Some (d, rest)"
  then obtain t where t: "skipSpace s = CHR 0x22 # t" and b: "jsonStringBody t = Some (d, rest)"
    by (auto simp: jsonString_def split: list.splits if_splits)
  have "length (skipSpace s) \<le> length s"
    by (simp add: skipSpace_def length_dropWhile_le)
  with t length_jsonStringBody [OF b] show ?thesis by simp
qed

text \<open>
  The members of an object after the opening brace, up to the closing brace: the
  names with their values in the order of the text, and what follows the brace.
\<close>

function jsonMembers :: "string \<Rightarrow> ((string \<times> string) list \<times> string) option" where
  "jsonMembers s =
     (case jsonString s of
        None \<Rightarrow> None
      | Some (k, r1) \<Rightarrow>
         (case skipSpace r1 of
            [] \<Rightarrow> None
          | c1 # r2 \<Rightarrow>
             if c1 \<noteq> CHR '':'' then None
             else
               (case jsonString r2 of
                  None \<Rightarrow> None
                | Some (v, r3) \<Rightarrow>
                   (case skipSpace r3 of
                      [] \<Rightarrow> None
                    | c2 # r4 \<Rightarrow>
                       if c2 = CHR ''}'' then Some ([(k, v)], r4)
                       else if c2 = CHR '','' then
                         (case jsonMembers r4 of
                            None \<Rightarrow> None
                          | Some (ms, rest) \<Rightarrow> Some ((k, v) # ms, rest))
                       else None))))"
  by pat_completeness auto
termination
proof (relation "measure length")
  show "wf (measure length)" by simp
next
  fix s :: string and x2 :: "string \<times> string" and k r1 :: string and c1 :: char
    and r2 :: string and x2a :: "string \<times> string" and v r3 :: string and c2 :: char
    and r4 :: string
  assume a: "jsonString s = Some x2" "(k, r1) = x2" "skipSpace r1 = c1 # r2"
    "jsonString r2 = Some x2a" "(v, r3) = x2a" "skipSpace r3 = c2 # r4"
  from a(1,2) have "length r1 < length s"
    using length_jsonString [of s k r1] by simp
  moreover have "length (skipSpace r1) \<le> length r1"
    by (simp add: skipSpace_def length_dropWhile_le)
  moreover from a(4,5) have "length r3 < length r2"
    using length_jsonString [of r2 v r3] by simp
  moreover have "length (skipSpace r3) \<le> length r3"
    by (simp add: skipSpace_def length_dropWhile_le)
  ultimately have "length r4 < length s" using a(3,6) by simp
  then show "(r4, s) \<in> measure length" by simp
qed

declare jsonMembers.simps [simp del]

text \<open>An object of string members that makes up the whole text (but for white space).\<close>

definition jsonObject :: "string \<Rightarrow> (string \<times> string) list option" where
  "jsonObject s =
     (case skipSpace s of
        [] \<Rightarrow> None
      | c # t \<Rightarrow>
         if c \<noteq> CHR ''{'' then None
         else
           (case skipSpace t of
              [] \<Rightarrow> None
            | c1 # t1 \<Rightarrow>
               if c1 = CHR ''}'' then (if skipSpace t1 = [] then Some [] else None)
               else
                 (case jsonMembers t of
                    None \<Rightarrow> None
                  | Some (ms, rest) \<Rightarrow> if skipSpace rest = [] then Some ms else None)))"

definition contentOf :: "string \<Rightarrow> string option" where
  "contentOf b = (case jsonObject b of None \<Rightarrow> None | Some ms \<Rightarrow> map_of ms ''content'')"

text \<open>
  What a client reads from the JSON rendering of a license: the members of the
  object \<open>toJSON\<close> returns, and the value of \<open>content\<close> among them.
\<close>

definition decodedMembers :: "LicenseData \<Rightarrow> (string \<times> string) list option" where
  "decodedMembers l = (case toJSON l of Inl err \<Rightarrow> None | Inr b \<Rightarrow> jsonObject b)"

definition decodedContent :: "LicenseData \<Rightarrow> string option" where
  "decodedContent l = (case toJSON l of Inl err \<Rightarrow> None | Inr b \<Rightarrow> contentOf b)"

text \<open>A license file that holds the single byte FF, which is not valid UTF-8.\<close>

definition invalidLicense :: LicenseData where
  "invalidLicense = \<lparr>Title = ''Bad'', Text = [CHR 0xFF], URL = ''/bad''\<rparr>"

subsection \<open>Notions used to state the properties\<close>

text \<open>
  The candidates of a header are the values the first loop of \<open>mostAcceptable\<close>
  collects, in the order of the header; the sorted candidates are what the scan
  runs over.
\<close>

definition candidates :: "string \<Rightarrow> AcceptType list" where
  "candidates accept = acceptableLoop (Split accept (CHR '',''))"

definition sortedCandidates :: "string \<Rightarrow> AcceptType list" where
  "sortedCandidates accept = SortStableFunc byWeight (candidates accept)"

text \<open>
  The support table of the specification: what a media type sent by the client maps
  to, \<open>None\<close> for a type that is skipped. A candidate is supported when its media
  type has an entry.
\<close>

definition supportTable :: "string \<Rightarrow> string option" where
  "supportTable m =
     (if m = ''text/plain'' \<or> m = ''*/*'' then Some ''text/plain''
      else if m = ''text/html'' \<or> m = ''application/xhtml+xml'' then Some ''text/html''
      else if m = ''application/json'' then Some ''application/json''
      else None)"

definition supported :: "AcceptType \<Rightarrow> bool" where
  "supported a = (supportTable (MediaType a) \<noteq> None)"

text \<open>The candidate at which the scan returns, if there is one.\<close>

definition winner :: "string \<Rightarrow> AcceptType option" where
  "winner accept = find supported (sortedCandidates accept)"

text \<open>
  The candidate the specification selects: the earliest listed among the supported
  candidates that no supported candidate outweighs.
\<close>

definition outweighed :: "AcceptType list \<Rightarrow> AcceptType \<Rightarrow> bool" where
  "outweighed cs a =
     list_ex (\<lambda>b. supported b \<and> f64_lt (RelativeWeight a) (RelativeWeight b)) cs"

definition bestSupported :: "AcceptType list \<Rightarrow> AcceptType option" where
  "bestSupported cs = find (\<lambda>a. supported a \<and> \<not> outweighed cs a) cs"

definition noNaN :: "AcceptType list \<Rightarrow> bool" where
  "noNaN cs = list_all (\<lambda>a. RelativeWeight a \<noteq> NaN) cs"

text \<open>Descending by weight: no element is outweighed by a later one.\<close>

definition descending :: "AcceptType list \<Rightarrow> bool" where
  "descending cs = sorted_wrt (\<lambda>a b. \<not> f64_lt (RelativeWeight a) (RelativeWeight b)) cs"

text \<open>What the specification resolves a list of candidates to.\<close>

definition specResolve :: "AcceptType list \<Rightarrow> string" where
  "specResolve cs =
     (case bestSupported cs of
        None \<Rightarrow> ''text/plain''
      | Some a \<Rightarrow> (case supportTable (MediaType a) of None \<Rightarrow> ''text/plain'' | Some t \<Rightarrow> t))"

text \<open>
  The weight the specification gives a candidate with the parameters \<open>params\<close>:
  1.0 when \<open>q\<close> is absent or \<open>ParseFloat\<close> refuses it, the parsed value
  otherwise.
\<close>

definition weightOf :: "(string \<rightharpoonup> string) \<Rightarrow> float64" where
  "weightOf params =
     (case params ''q'' of
        None \<Rightarrow> Finite 1
      | Some s \<Rightarrow> (case ParseFloat s of Inl err \<Rightarrow> Finite 1 | Inr val \<Rightarrow> val))"

text \<open>
  The header without the pieces that \<open>ParseMediaType\<close> refuses: the other pieces,
  joined by commas again (\<^verbatim>\<open>strings.Join\<close>).
\<close>

fun Join :: "string list \<Rightarrow> char \<Rightarrow> string" where
  "Join [] sep = []"
| "Join [t] sep = t"
| "Join (t # u # ts) sep = t @ sep # Join (u # ts) sep"

definition parseable :: "string \<Rightarrow> bool" where
  "parseable v = (case ParseMediaType v of Inl err \<Rightarrow> False | Inr r \<Rightarrow> True)"

definition withoutUnparseable :: "string \<Rightarrow> string" where
  "withoutUnparseable accept = Join (filter parseable (Split accept (CHR '',''))) (CHR '','')"

text \<open>
  A blank is a space or a horizontal tab, the two characters that may surround a
  media type in a header and that \<^verbatim>\<open>strings.TrimSpace\<close> removes.
\<close>

definition isBlank :: "char \<Rightarrow> bool" where
  "isBlank c = (c = CHR '' '' \<or> c = CHR 0x09)"

declare TrimRightSpace.simps [simp del]

declare paramLoop.simps [simp del]

section \<open>Evaluation rules\<close>

text \<open>
  Rules that evaluate the library functions on a given string one step at a time.
\<close>

lemmas utf8_eval = DecodeRuneInString_def DecodeLastRuneInString_def RuneStart_def IsSpace_def
  RuneError_def Let_def

lemmas lower_eval = lowerByte_def char_of_def bit_iff_odd

lemmas token_eval = consumeToken_def isTokenChar_def isTSpecial_def tspecials_def HasPrefix_def

lemmas param_eval = consumeMediaParam_def consumeValue_def token_eval utf8_eval lower_eval

lemmas float_eval = readFloat_def isDigit_def isHexLetter_def underscoreOK_def Let_def

lemmas round_eval = round64_def roundHalfEven_def Let_def

lemma TrimRightSpace_Nil [simp]: "TrimRightSpace [] = []"
  by (simp add: TrimRightSpace.simps)

lemma TrimRightSpace_Cons [simp]:
  "TrimRightSpace (c # cs) =
     (if IsSpace (fst (DecodeLastRuneInString (c # cs)))
      then TrimRightSpace
             (butlast (take (length (c # cs) - (snd (DecodeLastRuneInString (c # cs)) - 1)) (c # cs)))
      else c # cs)"
  by (subst TrimRightSpace.simps) (simp add: case_prod_unfold)

lemma bitLen_0 [simp]: "bitLen 0 = 0"
  by (simp add: bitLen.simps)

lemma bitLen_1 [simp]: "bitLen (Suc 0) = 1"
  by (simp add: bitLen.simps)

lemma bitLen_numeral [simp]: "bitLen (numeral k) = Suc (bitLen (numeral k div 2))"
  by (subst bitLen.simps) simp

lemma ParseMediaType_steps:
  assumes "ToLower (takeWhile (\<lambda>c. c \<noteq> CHR '';'') v) = l"
    and "TrimSpace l = m"
    and "checkMediaTypeDisposition m = None"
    and "paramLoop (dropWhile (\<lambda>c. c \<noteq> CHR '';'') v) Map.empty [] = Inr (params, [])"
  shows "ParseMediaType v = Inr (m, params)"
proof -
  have "drop (length (takeWhile (\<lambda>c. c \<noteq> CHR '';'') v)) v = dropWhile (\<lambda>c. c \<noteq> CHR '';'') v"
    by (induction v) auto
  with assms show ?thesis
    by (simp add: ParseMediaType_def CutBefore_def)
qed

lemma ParseMediaType_refused:
  assumes "ToLower (takeWhile (\<lambda>c. c \<noteq> CHR '';'') v) = l"
    and "TrimSpace l = m"
    and "checkMediaTypeDisposition m = Some e"
  shows "ParseMediaType v = Inl e"
  using assms by (simp add: ParseMediaType_def CutBefore_def)

lemma paramLoop_end [simp]: "paramLoop [] params continuation = Inr (params, continuation)"
  by (simp add: paramLoop.simps)

lemma paramLoop_step:
  assumes "TrimLeftSpace v = v'" and "v' \<noteq> []"
    and "consumeMediaParam v' = (key, val, rest)" and "key \<noteq> []"
    and "CHR ''*'' \<notin> set key" and "params key = None"
  shows "paramLoop v params continuation = paramLoop rest (params(key \<mapsto> val)) continuation"
proof -
  from assms(1,2) have "v \<noteq> []" by auto
  with assms show ?thesis
    by (subst paramLoop.simps) (simp add: CutBefore_def)
qed

lemma ParseFloat_steps:
  assumes "special s = None" and "readFloat s = Some (l, [])" and "literalValue l = Some x"
  shows "ParseFloat s = Inr (Finite (if neg l then - x else x))"
  using assms by (simp add: ParseFloat_def)

lemma ParseFloat_empty: "ParseFloat [] = Inl ErrSyntax"
  by (simp add: ParseFloat_def special_def readFloat_def)

lemma ParseMediaType_empty: "ParseMediaType [] = Inl NoMediaType"
  by (rule ParseMediaType_refused [where l = "[]" and m = "[]"])
     (simp_all add: TrimSpace_def checkMediaTypeDisposition_def consumeToken_def)

lemma acceptableLoop_ok:
  assumes "ParseMediaType v = Inr (m, params)" and "ParseFloat (lookup params ''q'') = Inr w"
  shows "acceptableLoop (v # vs) = \<lparr>MediaType = m, RelativeWeight = w\<rparr> # acceptableLoop vs"
  using assms by simp

lemma acceptableLoop_default:
  assumes "ParseMediaType v = Inr (m, params)" and "ParseFloat (lookup params ''q'') = Inl e"
  shows "acceptableLoop (v # vs) = \<lparr>MediaType = m, RelativeWeight = Finite 1\<rparr> # acceptableLoop vs"
  using assms by simp

lemma acceptableLoop_skip:
  assumes "ParseMediaType v = Inl e"
  shows "acceptableLoop (v # vs) = acceptableLoop vs"
  using assms by simp

section \<open>The stable sort\<close>

lemma mset_sinkLeft: "mset (sinkLeft cmp x rp) = add_mset x (mset rp)"
  by (induction rp) auto

lemma mset_foldl_sinkLeft:
  "mset (foldl (\<lambda>rp x. sinkLeft cmp x rp) acc xs) = mset acc + mset xs"
  by (induction xs arbitrary: acc) (auto simp: mset_sinkLeft)

lemma mset_SortStableFunc: "mset (SortStableFunc cmp xs) = mset xs"
  by (simp add: SortStableFunc_def insertionSortCmpFunc_def mset_foldl_sinkLeft)

lemma set_SortStableFunc: "set (SortStableFunc cmp xs) = set xs"
  using mset_SortStableFunc [of cmp xs] by (metis set_mset_mset)

lemma filter_sinkLeft:
  assumes "\<And>t. t \<in> set rp \<Longrightarrow> P x \<Longrightarrow> P t \<Longrightarrow> \<not> cmp x t < 0"
  shows "filter P (sinkLeft cmp x rp) = filter P (x # rp)"
  using assms by (induction rp) auto

lemma filter_foldl_sinkLeft:
  assumes "\<And>s t. s \<in> set xs \<union> set acc \<Longrightarrow> t \<in> set xs \<union> set acc \<Longrightarrow> P s \<Longrightarrow> P t \<Longrightarrow> \<not> cmp s t < 0"
  shows "filter P (foldl (\<lambda>rp x. sinkLeft cmp x rp) acc xs) = rev (filter P xs) @ filter P acc"
  using assms
proof (induction xs arbitrary: acc)
  case Nil
  then show ?case by simp
next
  case (Cons x xs)
  have set: "set (sinkLeft cmp x acc) = insert x (set acc)"
    using mset_sinkLeft [of cmp x acc] by (metis set_mset_mset set_mset_add_mset_insert)
  have "filter P (foldl (\<lambda>rp x. sinkLeft cmp x rp) (sinkLeft cmp x acc) xs)
        = rev (filter P xs) @ filter P (sinkLeft cmp x acc)"
    by (rule Cons.IH) (use Cons.prems set in auto)
  moreover have "filter P (sinkLeft cmp x acc) = filter P (x # acc)"
    by (rule filter_sinkLeft) (use Cons.prems in auto)
  ultimately show ?case by simp
qed

lemma filter_SortStableFunc:
  assumes "\<And>s t. s \<in> set xs \<Longrightarrow> t \<in> set xs \<Longrightarrow> P s \<Longrightarrow> P t \<Longrightarrow> \<not> cmp s t < 0"
  shows "filter P (SortStableFunc cmp xs) = filter P xs"
proof -
  have "filter P (foldl (\<lambda>rp x. sinkLeft cmp x rp) [] xs) = rev (filter P xs) @ filter P []"
    by (rule filter_foldl_sinkLeft) (use assms in auto)
  then have "rev (filter P (foldl (\<lambda>rp x. sinkLeft cmp x rp) [] xs)) = filter P xs"
    by simp
  then show ?thesis
    by (simp add: SortStableFunc_def insertionSortCmpFunc_def rev_filter)
qed

lemma sorted_sinkLeft:
  assumes "sorted_wrt (\<lambda>a b. \<not> cmp a b < 0) rp"
    and asym: "\<And>t. t \<in> set rp \<Longrightarrow> cmp x t < 0 \<Longrightarrow> \<not> cmp t x < 0"
    and ntrans: "\<And>s t. s \<in> set rp \<Longrightarrow> t \<in> set rp \<Longrightarrow> \<not> cmp x s < 0 \<Longrightarrow> \<not> cmp s t < 0 \<Longrightarrow> \<not> cmp x t < 0"
  shows "sorted_wrt (\<lambda>a b. \<not> cmp a b < 0) (sinkLeft cmp x rp)"
  using assms
proof (induction rp)
  case Nil
  then show ?case by simp
next
  case (Cons y rp)
  show ?case
  proof (cases "cmp x y < 0")
    case True
    have set: "set (sinkLeft cmp x rp) = insert x (set rp)"
      using mset_sinkLeft [of cmp x rp] by (metis set_mset_mset set_mset_add_mset_insert)
    have "sorted_wrt (\<lambda>a b. \<not> cmp a b < 0) (sinkLeft cmp x rp)"
      by (rule Cons.IH) (use Cons.prems in auto)
    moreover have "\<not> cmp y x < 0" using Cons.prems(2) True by simp
    ultimately show ?thesis using True Cons.prems(1) set by auto
  next
    case False
    then show ?thesis using Cons.prems by auto
  qed
qed


lemma set_sinkLeft: "set (sinkLeft cmp x rp) = insert x (set rp)"
  using mset_sinkLeft [of cmp x rp] by (metis set_mset_mset set_mset_add_mset_insert)

lemma set_foldl_sinkLeft: "set (foldl (\<lambda>rp x. sinkLeft cmp x rp) acc xs) = set acc \<union> set xs"
  using mset_foldl_sinkLeft [of cmp acc xs] by (metis set_mset_mset set_mset_union)

lemma sorted_foldl_sinkLeft:
  assumes "sorted_wrt (\<lambda>a b. \<not> cmp a b < 0) acc"
    and asym: "\<And>s t. s \<in> set xs \<union> set acc \<Longrightarrow> t \<in> set xs \<union> set acc \<Longrightarrow> cmp s t < 0 \<Longrightarrow> \<not> cmp t s < 0"
    and ntrans: "\<And>r s t. r \<in> set xs \<union> set acc \<Longrightarrow> s \<in> set xs \<union> set acc \<Longrightarrow> t \<in> set xs \<union> set acc
                  \<Longrightarrow> \<not> cmp r s < 0 \<Longrightarrow> \<not> cmp s t < 0 \<Longrightarrow> \<not> cmp r t < 0"
  shows "sorted_wrt (\<lambda>a b. \<not> cmp a b < 0) (foldl (\<lambda>rp x. sinkLeft cmp x rp) acc xs)"
  using assms
proof (induction xs arbitrary: acc)
  case Nil
  from Nil.prems(1) show ?case by simp
next
  case (Cons x xs)
  have mem: "s \<in> set (x # xs) \<union> set acc" if "s \<in> set xs \<union> set (sinkLeft cmp x acc)" for s
    using that by (auto simp: set_sinkLeft)
  have memx: "x \<in> set (x # xs) \<union> set acc" by simp
  have mema: "s \<in> set (x # xs) \<union> set acc" if "s \<in> set acc" for s
    using that by simp
  have s1: "sorted_wrt (\<lambda>a b. \<not> cmp a b < 0) (sinkLeft cmp x acc)"
  proof (rule sorted_sinkLeft)
    show "sorted_wrt (\<lambda>a b. \<not> cmp a b < 0) acc" by (rule Cons.prems(1))
    show "\<not> cmp t x < 0" if "t \<in> set acc" "cmp x t < 0" for t
      by (rule Cons.prems(2) [OF memx mema [OF that(1)] that(2)])
    show "\<not> cmp x t < 0" if "s \<in> set acc" "t \<in> set acc" "\<not> cmp x s < 0" "\<not> cmp s t < 0" for s t
      by (rule Cons.prems(3) [OF memx mema [OF that(1)] mema [OF that(2)] that(3) that(4)])
  qed
  have "sorted_wrt (\<lambda>a b. \<not> cmp a b < 0)
          (foldl (\<lambda>rp x. sinkLeft cmp x rp) (sinkLeft cmp x acc) xs)"
  proof (rule Cons.IH [OF s1])
    show "\<not> cmp t s < 0"
      if "s \<in> set xs \<union> set (sinkLeft cmp x acc)" "t \<in> set xs \<union> set (sinkLeft cmp x acc)" "cmp s t < 0"
      for s t
      by (rule Cons.prems(2) [OF mem [OF that(1)] mem [OF that(2)] that(3)])
    show "\<not> cmp r t < 0"
      if "r \<in> set xs \<union> set (sinkLeft cmp x acc)" "s \<in> set xs \<union> set (sinkLeft cmp x acc)"
         "t \<in> set xs \<union> set (sinkLeft cmp x acc)" "\<not> cmp r s < 0" "\<not> cmp s t < 0"
      for r s t
      by (rule Cons.prems(3) [OF mem [OF that(1)] mem [OF that(2)] mem [OF that(3)] that(4) that(5)])
  qed
  then show ?case by simp
qed

lemma sorted_SortStableFunc:
  assumes asym: "\<And>s t. s \<in> set xs \<Longrightarrow> t \<in> set xs \<Longrightarrow> cmp s t < 0 \<Longrightarrow> \<not> cmp t s < 0"
    and ntrans: "\<And>r s t. r \<in> set xs \<Longrightarrow> s \<in> set xs \<Longrightarrow> t \<in> set xs
                  \<Longrightarrow> \<not> cmp r s < 0 \<Longrightarrow> \<not> cmp s t < 0 \<Longrightarrow> \<not> cmp r t < 0"
  shows "sorted_wrt (\<lambda>a b. \<not> cmp b a < 0) (SortStableFunc cmp xs)"
proof -
  have "sorted_wrt (\<lambda>a b. \<not> cmp a b < 0) (foldl (\<lambda>rp x. sinkLeft cmp x rp) [] xs)"
  proof (rule sorted_foldl_sinkLeft)
    show "sorted_wrt (\<lambda>a b. \<not> cmp a b < 0) []" by simp
    show "\<not> cmp t s < 0" if "s \<in> set xs \<union> set []" "t \<in> set xs \<union> set []" "cmp s t < 0" for s t
      using asym [of s t] that by simp
    show "\<not> cmp r t < 0"
      if "r \<in> set xs \<union> set []" "s \<in> set xs \<union> set []" "t \<in> set xs \<union> set []"
         "\<not> cmp r s < 0" "\<not> cmp s t < 0" for r s t
      using ntrans [of r s t] that by simp
  qed
  then have "sorted_wrt (\<lambda>a b. \<not> cmp b a < 0) (rev (foldl (\<lambda>rp x. sinkLeft cmp x rp) [] xs))"
    by (simp add: sorted_wrt_rev)
  then show ?thesis
    by (simp add: SortStableFunc_def insertionSortCmpFunc_def)
qed

lemma f64_lt_irrefl: "\<not> f64_lt a a"
  by (cases a) auto

lemma f64_lt_asym: "f64_lt a b \<Longrightarrow> \<not> f64_lt b a"
  by (cases a; cases b) auto

lemma f64_lt_ntrans:
  "b \<noteq> NaN \<Longrightarrow> \<not> f64_lt a b \<Longrightarrow> \<not> f64_lt b c \<Longrightarrow> \<not> f64_lt a c"
  by (cases a; cases b; cases c) auto

lemma f64_lt_total: "a \<noteq> NaN \<Longrightarrow> b \<noteq> NaN \<Longrightarrow> \<not> f64_lt a b \<Longrightarrow> \<not> f64_lt b a \<Longrightarrow> a = b"
  by (cases a; cases b) auto

lemma byWeight_neg: "byWeight a b < 0 \<longleftrightarrow> f64_lt (RelativeWeight b) (RelativeWeight a)"
  by (simp add: byWeight_def f64_gt_def)


lemma descending_SortStableFunc:
  assumes "noNaN cs"
  shows "descending (SortStableFunc byWeight cs)"
proof -
  have nn: "RelativeWeight s \<noteq> NaN" if "s \<in> set cs" for s
    using assms that by (simp add: noNaN_def list_all_iff)
  have "sorted_wrt (\<lambda>a b. \<not> byWeight b a < 0) (SortStableFunc byWeight cs)"
  proof (rule sorted_SortStableFunc)
    show "\<not> byWeight t s < 0" if "byWeight s t < 0" for s t
      using that f64_lt_asym [of "RelativeWeight t" "RelativeWeight s"] by (simp add: byWeight_neg)
    show "\<not> byWeight r t < 0"
      if "s \<in> set cs" "\<not> byWeight r s < 0" "\<not> byWeight s t < 0" for r s t
      using f64_lt_ntrans [OF nn [OF that(1)], of "RelativeWeight t" "RelativeWeight r"] that(2,3)
      by (simp add: byWeight_neg)
  qed
  then show ?thesis by (simp add: descending_def byWeight_neg)
qed

lemma stable_SortStableFunc:
  assumes "\<And>s t. P s \<Longrightarrow> P t \<Longrightarrow> RelativeWeight s = RelativeWeight t"
  shows "filter P (SortStableFunc byWeight cs) = filter P cs"
proof (rule filter_SortStableFunc)
  fix s t assume "P s" "P t"
  then have "RelativeWeight s = RelativeWeight t" by (rule assms)
  then show "\<not> byWeight s t < 0" by (simp add: byWeight_neg f64_lt_irrefl)
qed

lemma find_filter: "find P xs = (case filter P xs of [] \<Rightarrow> None | x # _ \<Rightarrow> Some x)"
  by (induction xs) auto

lemma firstSupported_find:
  "firstSupported as =
     (case find supported as of
        None \<Rightarrow> ''text/plain''
      | Some a \<Rightarrow> the (supportTable (MediaType a)))"
  by (induction as) (auto simp: supported_def supportTable_def)

lemma find_Some_split:
  "find P xs = Some a \<Longrightarrow> \<exists>ys zs. xs = ys @ a # zs \<and> P a \<and> (\<forall>y \<in> set ys. \<not> P y)"
proof (induction xs)
  case Nil
  then show ?case by simp
next
  case (Cons x xs)
  show ?case
  proof (cases "P x")
    case True
    with Cons.prems have "x = a" by simp
    with True have "x # xs = [] @ a # xs \<and> P a \<and> (\<forall>y \<in> set []. \<not> P y)" by simp
    then show ?thesis by blast
  next
    case False
    with Cons.prems have "find P xs = Some a" by simp
    from Cons.IH [OF this] obtain ys zs where
      "xs = ys @ a # zs" "P a" "\<forall>y \<in> set ys. \<not> P y" by blast
    with False have "x # xs = (x # ys) @ a # zs \<and> P a \<and> (\<forall>y \<in> set (x # ys). \<not> P y)"
      by simp
    then show ?thesis by blast
  qed
qed

lemma find_append_first:
  "P a \<Longrightarrow> \<forall>y \<in> set ys. \<not> P y \<Longrightarrow> find P (ys @ a # zs) = Some a"
  by (induction ys) auto

lemma winner_best:
  assumes nn: "noNaN cs"
  shows "find supported (SortStableFunc byWeight cs) = bestSupported cs"
proof (cases "find supported (SortStableFunc byWeight cs)")
  case None
  then have "\<forall>a \<in> set cs. \<not> supported a"
    by (simp add: find_None_iff set_SortStableFunc)
  then have "bestSupported cs = None"
    by (auto simp: bestSupported_def find_None_iff)
  with None show ?thesis by simp
next
  case (Some a)
  define R where "R = SortStableFunc byWeight cs"
  define P where "P = (\<lambda>b. supported b \<and> \<not> outweighed cs b)"
  from Some obtain ys zs where R: "R = ys @ a # zs" and sa: "supported a"
    and ys: "\<forall>y \<in> set ys. \<not> supported y"
    unfolding R_def using find_Some_split [of supported _ a] by blast
  have nnan: "RelativeWeight s \<noteq> NaN" if "s \<in> set cs" for s
    using nn that by (simp add: noNaN_def list_all_iff)
  have setR: "set R = set cs" by (simp add: R_def set_SortStableFunc)
  have desc: "descending R" unfolding R_def by (rule descending_SortStableFunc [OF nn])
  have top: "\<not> f64_lt (RelativeWeight a) (RelativeWeight b)" if "b \<in> set cs" "supported b" for b
  proof -
    from that(1) setR R have "b \<in> set ys \<or> b = a \<or> b \<in> set zs" by auto
    then show ?thesis
    proof (elim disjE)
      assume "b \<in> set ys"
      with ys that(2) show ?thesis by blast
    next
      assume "b = a"
      then show ?thesis by (simp add: f64_lt_irrefl)
    next
      assume "b \<in> set zs"
      with desc R show ?thesis
        by (auto simp: descending_def sorted_wrt_append)
    qed
  qed
  have Pa: "P a"
    using sa top by (auto simp: P_def outweighed_def list_ex_iff)
  have a_cs: "a \<in> set cs" using setR R by auto
  have same: "RelativeWeight s = RelativeWeight t" if "s \<in> set cs" "t \<in> set cs" "P s" "P t" for s t
  proof -
    from that have "\<not> f64_lt (RelativeWeight s) (RelativeWeight t)"
      "\<not> f64_lt (RelativeWeight t) (RelativeWeight s)"
      by (auto simp: P_def outweighed_def list_ex_iff)
    then show ?thesis using f64_lt_total nnan that(1,2) by blast
  qed
  define Q where "Q = (\<lambda>b. P b \<and> b \<in> set cs)"
  have "filter Q R = filter Q cs"
    unfolding R_def
    by (rule stable_SortStableFunc) (use same in \<open>auto simp: Q_def\<close>)
  moreover have "filter Q R = filter P R"
    by (rule filter_cong) (auto simp: Q_def setR)
  moreover have "filter Q cs = filter P cs"
    by (rule filter_cong) (auto simp: Q_def)
  ultimately have "filter P R = filter P cs" by simp
  then have "find P cs = find P R" by (simp add: find_filter)
  also have "find P R = Some a"
  proof -
    have "\<forall>y \<in> set ys. \<not> P y" using ys by (simp add: P_def)
    with Pa show ?thesis unfolding R by (rule find_append_first [of P a ys zs])
  qed
  finally have "bestSupported cs = Some a" by (simp add: bestSupported_def P_def)
  with Some show ?thesis by simp
qed


section \<open>The pieces of the headers used below\<close>

lemma ParseMediaType_text_css: "ParseMediaType ''text/css'' = Inr (''text/css'', Map.empty)"
proof (rule ParseMediaType_steps)
  show "ToLower (takeWhile (\<lambda>c. c \<noteq> CHR '';'') ''text/css'') = ''text/css''"
    by (simp add: utf8_eval lower_eval)
  show "TrimSpace ''text/css'' = ''text/css''"
    by (simp add: TrimSpace_def utf8_eval)
  show "checkMediaTypeDisposition ''text/css'' = None"
    by (simp add: checkMediaTypeDisposition_def token_eval Let_def)
  show "paramLoop (dropWhile (\<lambda>c. c \<noteq> CHR '';'') ''text/css'') Map.empty [] = Inr (Map.empty, [])"
    by simp
qed

lemma ParseMediaType_text_plain: "ParseMediaType ''text/plain'' = Inr (''text/plain'', Map.empty)"
proof (rule ParseMediaType_steps)
  show "ToLower (takeWhile (\<lambda>c. c \<noteq> CHR '';'') ''text/plain'') = ''text/plain''"
    by (simp add: utf8_eval lower_eval)
  show "TrimSpace ''text/plain'' = ''text/plain''"
    by (simp add: TrimSpace_def utf8_eval)
  show "checkMediaTypeDisposition ''text/plain'' = None"
    by (simp add: checkMediaTypeDisposition_def token_eval Let_def)
  show "paramLoop (dropWhile (\<lambda>c. c \<noteq> CHR '';'') ''text/plain'') Map.empty [] = Inr (Map.empty, [])"
    by simp
qed

lemma ParseMediaType_any: "ParseMediaType ''*/*'' = Inr (''*/*'', Map.empty)"
proof (rule ParseMediaType_steps)
  show "ToLower (takeWhile (\<lambda>c. c \<noteq> CHR '';'') ''*/*'') = ''*/*''"
    by (simp add: utf8_eval lower_eval)
  show "TrimSpace ''*/*'' = ''*/*''"
    by (simp add: TrimSpace_def utf8_eval)
  show "checkMediaTypeDisposition ''*/*'' = None"
    by (simp add: checkMediaTypeDisposition_def token_eval Let_def)
  show "paramLoop (dropWhile (\<lambda>c. c \<noteq> CHR '';'') ''*/*'') Map.empty [] = Inr (Map.empty, [])"
    by simp
qed

lemma ParseMediaType_text_html: "ParseMediaType ''text/html'' = Inr (''text/html'', Map.empty)"
proof (rule ParseMediaType_steps)
  show "ToLower (takeWhile (\<lambda>c. c \<noteq> CHR '';'') ''text/html'') = ''text/html''"
    by (simp add: utf8_eval lower_eval)
  show "TrimSpace ''text/html'' = ''text/html''"
    by (simp add: TrimSpace_def utf8_eval)
  show "checkMediaTypeDisposition ''text/html'' = None"
    by (simp add: checkMediaTypeDisposition_def token_eval Let_def)
  show "paramLoop (dropWhile (\<lambda>c. c \<noteq> CHR '';'') ''text/html'') Map.empty [] = Inr (Map.empty, [])"
    by simp
qed

lemma ParseMediaType_xhtml: "ParseMediaType ''application/xhtml+xml'' = Inr (''application/xhtml+xml'', Map.empty)"
proof (rule ParseMediaType_steps)
  show "ToLower (takeWhile (\<lambda>c. c \<noteq> CHR '';'') ''application/xhtml+xml'') = ''application/xhtml+xml''"
    by (simp add: utf8_eval lower_eval)
  show "TrimSpace ''application/xhtml+xml'' = ''application/xhtml+xml''"
    by (simp add: TrimSpace_def utf8_eval)
  show "checkMediaTypeDisposition ''application/xhtml+xml'' = None"
    by (simp add: checkMediaTypeDisposition_def token_eval Let_def)
  show "paramLoop (dropWhile (\<lambda>c. c \<noteq> CHR '';'') ''application/xhtml+xml'') Map.empty [] = Inr (Map.empty, [])"
    by simp
qed

lemma ParseMediaType_json: "ParseMediaType ''application/json'' = Inr (''application/json'', Map.empty)"
proof (rule ParseMediaType_steps)
  show "ToLower (takeWhile (\<lambda>c. c \<noteq> CHR '';'') ''application/json'') = ''application/json''"
    by (simp add: utf8_eval lower_eval)
  show "TrimSpace ''application/json'' = ''application/json''"
    by (simp add: TrimSpace_def utf8_eval)
  show "checkMediaTypeDisposition ''application/json'' = None"
    by (simp add: checkMediaTypeDisposition_def token_eval Let_def)
  show "paramLoop (dropWhile (\<lambda>c. c \<noteq> CHR '';'') ''application/json'') Map.empty [] = Inr (Map.empty, [])"
    by simp
qed

lemma ParseMediaType_lol_wut: "ParseMediaType ''lol/wut'' = Inr (''lol/wut'', Map.empty)"
proof (rule ParseMediaType_steps)
  show "ToLower (takeWhile (\<lambda>c. c \<noteq> CHR '';'') ''lol/wut'') = ''lol/wut''"
    by (simp add: utf8_eval lower_eval)
  show "TrimSpace ''lol/wut'' = ''lol/wut''"
    by (simp add: TrimSpace_def utf8_eval)
  show "checkMediaTypeDisposition ''lol/wut'' = None"
    by (simp add: checkMediaTypeDisposition_def token_eval Let_def)
  show "paramLoop (dropWhile (\<lambda>c. c \<noteq> CHR '';'') ''lol/wut'') Map.empty [] = Inr (Map.empty, [])"
    by simp
qed

lemma ParseMediaType_plain_08: "ParseMediaType '' text/plain; q=0.8'' = Inr (''text/plain'', [''q'' \<mapsto> ''0.8''])"
proof (rule ParseMediaType_steps)
  show "ToLower (takeWhile (\<lambda>c. c \<noteq> CHR '';'') '' text/plain; q=0.8'') = '' text/plain''"
    by (simp add: utf8_eval lower_eval)
  show "TrimSpace '' text/plain'' = ''text/plain''"
    by (simp add: TrimSpace_def utf8_eval)
  show "checkMediaTypeDisposition ''text/plain'' = None"
    by (simp add: checkMediaTypeDisposition_def token_eval Let_def)
  have "paramLoop ''; q=0.8'' Map.empty [] = paramLoop [] [''q'' \<mapsto> ''0.8''] []"
  proof (rule paramLoop_step)
    show "TrimLeftSpace ''; q=0.8'' = ''; q=0.8''"
      by (simp add: utf8_eval)
    show "consumeMediaParam ''; q=0.8'' = (''q'', ''0.8'', [])"
      by (simp add: param_eval)
  qed simp_all
  then show "paramLoop (dropWhile (\<lambda>c. c \<noteq> CHR '';'') '' text/plain; q=0.8'') Map.empty []
      = Inr ([''q'' \<mapsto> ''0.8''], [])"
    by simp
qed

lemma ParseMediaType_html_09: "ParseMediaType '' text/html; q=0.9'' = Inr (''text/html'', [''q'' \<mapsto> ''0.9''])"
proof (rule ParseMediaType_steps)
  show "ToLower (takeWhile (\<lambda>c. c \<noteq> CHR '';'') '' text/html; q=0.9'') = '' text/html''"
    by (simp add: utf8_eval lower_eval)
  show "TrimSpace '' text/html'' = ''text/html''"
    by (simp add: TrimSpace_def utf8_eval)
  show "checkMediaTypeDisposition ''text/html'' = None"
    by (simp add: checkMediaTypeDisposition_def token_eval Let_def)
  have "paramLoop ''; q=0.9'' Map.empty [] = paramLoop [] [''q'' \<mapsto> ''0.9''] []"
  proof (rule paramLoop_step)
    show "TrimLeftSpace ''; q=0.9'' = ''; q=0.9''"
      by (simp add: utf8_eval)
    show "consumeMediaParam ''; q=0.9'' = (''q'', ''0.9'', [])"
      by (simp add: param_eval)
  qed simp_all
  then show "paramLoop (dropWhile (\<lambda>c. c \<noteq> CHR '';'') '' text/html; q=0.9'') Map.empty []
      = Inr ([''q'' \<mapsto> ''0.9''], [])"
    by simp
qed

lemma ParseMediaType_plain_05: "ParseMediaType ''text/plain; q=0.5'' = Inr (''text/plain'', [''q'' \<mapsto> ''0.5''])"
proof (rule ParseMediaType_steps)
  show "ToLower (takeWhile (\<lambda>c. c \<noteq> CHR '';'') ''text/plain; q=0.5'') = ''text/plain''"
    by (simp add: utf8_eval lower_eval)
  show "TrimSpace ''text/plain'' = ''text/plain''"
    by (simp add: TrimSpace_def utf8_eval)
  show "checkMediaTypeDisposition ''text/plain'' = None"
    by (simp add: checkMediaTypeDisposition_def token_eval Let_def)
  have "paramLoop ''; q=0.5'' Map.empty [] = paramLoop [] [''q'' \<mapsto> ''0.5''] []"
  proof (rule paramLoop_step)
    show "TrimLeftSpace ''; q=0.5'' = ''; q=0.5''"
      by (simp add: utf8_eval)
    show "consumeMediaParam ''; q=0.5'' = (''q'', ''0.5'', [])"
      by (simp add: param_eval)
  qed simp_all
  then show "paramLoop (dropWhile (\<lambda>c. c \<noteq> CHR '';'') ''text/plain; q=0.5'') Map.empty []
      = Inr ([''q'' \<mapsto> ''0.5''], [])"
    by simp
qed

lemma ParseMediaType_wut_NaN: "ParseMediaType '' lol/wut; q=NaN'' = Inr (''lol/wut'', [''q'' \<mapsto> ''NaN''])"
proof (rule ParseMediaType_steps)
  show "ToLower (takeWhile (\<lambda>c. c \<noteq> CHR '';'') '' lol/wut; q=NaN'') = '' lol/wut''"
    by (simp add: utf8_eval lower_eval)
  show "TrimSpace '' lol/wut'' = ''lol/wut''"
    by (simp add: TrimSpace_def utf8_eval)
  show "checkMediaTypeDisposition ''lol/wut'' = None"
    by (simp add: checkMediaTypeDisposition_def token_eval Let_def)
  have "paramLoop ''; q=NaN'' Map.empty [] = paramLoop [] [''q'' \<mapsto> ''NaN''] []"
  proof (rule paramLoop_step)
    show "TrimLeftSpace ''; q=NaN'' = ''; q=NaN''"
      by (simp add: utf8_eval)
    show "consumeMediaParam ''; q=NaN'' = (''q'', ''NaN'', [])"
      by (simp add: param_eval)
  qed simp_all
  then show "paramLoop (dropWhile (\<lambda>c. c \<noteq> CHR '';'') '' lol/wut; q=NaN'') Map.empty []
      = Inr ([''q'' \<mapsto> ''NaN''], [])"
    by simp
qed

lemma ParseMediaType_html_NaN: "ParseMediaType ''text/html; q=NaN'' = Inr (''text/html'', [''q'' \<mapsto> ''NaN''])"
proof (rule ParseMediaType_steps)
  show "ToLower (takeWhile (\<lambda>c. c \<noteq> CHR '';'') ''text/html; q=NaN'') = ''text/html''"
    by (simp add: utf8_eval lower_eval)
  show "TrimSpace ''text/html'' = ''text/html''"
    by (simp add: TrimSpace_def utf8_eval)
  show "checkMediaTypeDisposition ''text/html'' = None"
    by (simp add: checkMediaTypeDisposition_def token_eval Let_def)
  have "paramLoop ''; q=NaN'' Map.empty [] = paramLoop [] [''q'' \<mapsto> ''NaN''] []"
  proof (rule paramLoop_step)
    show "TrimLeftSpace ''; q=NaN'' = ''; q=NaN''"
      by (simp add: utf8_eval)
    show "consumeMediaParam ''; q=NaN'' = (''q'', ''NaN'', [])"
      by (simp add: param_eval)
  qed simp_all
  then show "paramLoop (dropWhile (\<lambda>c. c \<noteq> CHR '';'') ''text/html; q=NaN'') Map.empty []
      = Inr ([''q'' \<mapsto> ''NaN''], [])"
    by simp
qed

lemma ParseMediaType_html_neg: "ParseMediaType ''text/html; q=-1'' = Inr (''text/html'', [''q'' \<mapsto> ''-1''])"
proof (rule ParseMediaType_steps)
  show "ToLower (takeWhile (\<lambda>c. c \<noteq> CHR '';'') ''text/html; q=-1'') = ''text/html''"
    by (simp add: utf8_eval lower_eval)
  show "TrimSpace ''text/html'' = ''text/html''"
    by (simp add: TrimSpace_def utf8_eval)
  show "checkMediaTypeDisposition ''text/html'' = None"
    by (simp add: checkMediaTypeDisposition_def token_eval Let_def)
  have "paramLoop ''; q=-1'' Map.empty [] = paramLoop [] [''q'' \<mapsto> ''-1''] []"
  proof (rule paramLoop_step)
    show "TrimLeftSpace ''; q=-1'' = ''; q=-1''"
      by (simp add: utf8_eval)
    show "consumeMediaParam ''; q=-1'' = (''q'', ''-1'', [])"
      by (simp add: param_eval)
  qed simp_all
  then show "paramLoop (dropWhile (\<lambda>c. c \<noteq> CHR '';'') ''text/html; q=-1'') Map.empty []
      = Inr ([''q'' \<mapsto> ''-1''], [])"
    by simp
qed

lemma ParseMediaType_plain_5: "ParseMediaType ''text/plain; q=5'' = Inr (''text/plain'', [''q'' \<mapsto> ''5''])"
proof (rule ParseMediaType_steps)
  show "ToLower (takeWhile (\<lambda>c. c \<noteq> CHR '';'') ''text/plain; q=5'') = ''text/plain''"
    by (simp add: utf8_eval lower_eval)
  show "TrimSpace ''text/plain'' = ''text/plain''"
    by (simp add: TrimSpace_def utf8_eval)
  show "checkMediaTypeDisposition ''text/plain'' = None"
    by (simp add: checkMediaTypeDisposition_def token_eval Let_def)
  have "paramLoop ''; q=5'' Map.empty [] = paramLoop [] [''q'' \<mapsto> ''5''] []"
  proof (rule paramLoop_step)
    show "TrimLeftSpace ''; q=5'' = ''; q=5''"
      by (simp add: utf8_eval)
    show "consumeMediaParam ''; q=5'' = (''q'', ''5'', [])"
      by (simp add: param_eval)
  qed simp_all
  then show "paramLoop (dropWhile (\<lambda>c. c \<noteq> CHR '';'') ''text/plain; q=5'') Map.empty []
      = Inr ([''q'' \<mapsto> ''5''], [])"
    by simp
qed

lemma ParseMediaType_json_0: "ParseMediaType ''application/json;q=0'' = Inr (''application/json'', [''q'' \<mapsto> ''0''])"
proof (rule ParseMediaType_steps)
  show "ToLower (takeWhile (\<lambda>c. c \<noteq> CHR '';'') ''application/json;q=0'') = ''application/json''"
    by (simp add: utf8_eval lower_eval)
  show "TrimSpace ''application/json'' = ''application/json''"
    by (simp add: TrimSpace_def utf8_eval)
  show "checkMediaTypeDisposition ''application/json'' = None"
    by (simp add: checkMediaTypeDisposition_def token_eval Let_def)
  have "paramLoop '';q=0'' Map.empty [] = paramLoop [] [''q'' \<mapsto> ''0''] []"
  proof (rule paramLoop_step)
    show "TrimLeftSpace '';q=0'' = '';q=0''"
      by (simp add: utf8_eval)
    show "consumeMediaParam '';q=0'' = (''q'', ''0'', [])"
      by (simp add: param_eval)
  qed simp_all
  then show "paramLoop (dropWhile (\<lambda>c. c \<noteq> CHR '';'') ''application/json;q=0'') Map.empty []
      = Inr ([''q'' \<mapsto> ''0''], [])"
    by simp
qed

lemma ParseFloat_08: "ParseFloat ''0.8'' = Inr (Finite (3602879701896397 / 4503599627370496))"
proof -
  have a: "special ''0.8'' = None"
    by (simp add: special_def infinityLen_def lower_eval)
  have b: "readFloat ''0.8'' = Some (\<lparr>neg = False, hex = False, mant = 8, ex = - 1\<rparr>, [])"
    by (simp add: float_eval)
  have "round64 8 10 = Some (3602879701896397 / 4503599627370496)"
    by (simp add: round_eval)
  then have c: "literalValue \<lparr>neg = False, hex = False, mant = 8, ex = - 1\<rparr> = Some (3602879701896397 / 4503599627370496)"
    by (simp add: literalValue_def)
  from ParseFloat_steps [OF a b c] show ?thesis
    by simp
qed

lemma ParseFloat_09: "ParseFloat ''0.9'' = Inr (Finite (8106479329266893 / 9007199254740992))"
proof -
  have a: "special ''0.9'' = None"
    by (simp add: special_def infinityLen_def lower_eval)
  have b: "readFloat ''0.9'' = Some (\<lparr>neg = False, hex = False, mant = 9, ex = - 1\<rparr>, [])"
    by (simp add: float_eval)
  have "round64 9 10 = Some (8106479329266893 / 9007199254740992)"
    by (simp add: round_eval)
  then have c: "literalValue \<lparr>neg = False, hex = False, mant = 9, ex = - 1\<rparr> = Some (8106479329266893 / 9007199254740992)"
    by (simp add: literalValue_def)
  from ParseFloat_steps [OF a b c] show ?thesis
    by simp
qed

lemma ParseFloat_05: "ParseFloat ''0.5'' = Inr (Finite (1 / 2))"
proof -
  have a: "special ''0.5'' = None"
    by (simp add: special_def infinityLen_def lower_eval)
  have b: "readFloat ''0.5'' = Some (\<lparr>neg = False, hex = False, mant = 5, ex = - 1\<rparr>, [])"
    by (simp add: float_eval)
  have "round64 5 10 = Some (1 / 2)"
    by (simp add: round_eval)
  then have c: "literalValue \<lparr>neg = False, hex = False, mant = 5, ex = - 1\<rparr> = Some (1 / 2)"
    by (simp add: literalValue_def)
  from ParseFloat_steps [OF a b c] show ?thesis
    by simp
qed

lemma ParseFloat_neg: "ParseFloat ''-1'' = Inr (Finite (- 1))"
proof -
  have a: "special ''-1'' = None"
    by (simp add: special_def infinityLen_def lower_eval)
  have b: "readFloat ''-1'' = Some (\<lparr>neg = True, hex = False, mant = 1, ex = 0\<rparr>, [])"
    by (simp add: float_eval)
  have "round64 1 1 = Some (1)"
    by (simp add: round_eval)
  then have c: "literalValue \<lparr>neg = True, hex = False, mant = 1, ex = 0\<rparr> = Some (1)"
    by (simp add: literalValue_def)
  from ParseFloat_steps [OF a b c] show ?thesis
    by simp
qed

lemma ParseFloat_5: "ParseFloat ''5'' = Inr (Finite 5)"
proof -
  have a: "special ''5'' = None"
    by (simp add: special_def infinityLen_def lower_eval)
  have b: "readFloat ''5'' = Some (\<lparr>neg = False, hex = False, mant = 5, ex = 0\<rparr>, [])"
    by (simp add: float_eval)
  have "round64 5 1 = Some (5)"
    by (simp add: round_eval)
  then have c: "literalValue \<lparr>neg = False, hex = False, mant = 5, ex = 0\<rparr> = Some (5)"
    by (simp add: literalValue_def)
  from ParseFloat_steps [OF a b c] show ?thesis
    by simp
qed

lemma ParseFloat_0: "ParseFloat ''0'' = Inr (Finite 0)"
proof -
  have a: "special ''0'' = None"
    by (simp add: special_def infinityLen_def lower_eval)
  have b: "readFloat ''0'' = Some (\<lparr>neg = False, hex = False, mant = 0, ex = 0\<rparr>, [])"
    by (simp add: float_eval)
  have "round64 0 1 = Some (0)"
    by (simp add: round_eval)
  then have c: "literalValue \<lparr>neg = False, hex = False, mant = 0, ex = 0\<rparr> = Some (0)"
    by (simp add: literalValue_def)
  from ParseFloat_steps [OF a b c] show ?thesis
    by simp
qed

lemma ParseFloat_NaN: "ParseFloat ''NaN'' = Inr NaN"
  by (simp add: ParseFloat_def special_def lower_eval)

lemma acceptableLoop_q:
  assumes "ParseMediaType v = Inr (m, [''q'' \<mapsto> s])" and "ParseFloat s = Inr w"
  shows "acceptableLoop (v # vs) = \<lparr>MediaType = m, RelativeWeight = w\<rparr> # acceptableLoop vs"
  using assms by (simp add: lookup_def)

lemma acceptableLoop_no_q:
  assumes "ParseMediaType v = Inr (m, Map.empty)"
  shows "acceptableLoop (v # vs) = \<lparr>MediaType = m, RelativeWeight = Finite 1\<rparr> # acceptableLoop vs"
  using assms by (simp add: lookup_def ParseFloat_empty)

lemma mostAcceptable_sorted: "mostAcceptable accept = firstSupported (sortedCandidates accept)"
  by (simp add: mostAcceptable_def sortedCandidates_def candidates_def)

lemmas sort_eval = sortedCandidates_def SortStableFunc_def insertionSortCmpFunc_def byWeight_def
  f64_gt_def

section \<open>Properties of the negotiation\<close>

subsection \<open>General facts\<close>

lemma mostAcceptable_winner:
  "mostAcceptable accept =
     (case winner accept of
        None \<Rightarrow> ''text/plain''
      | Some a \<Rightarrow> (case supportTable (MediaType a) of None \<Rightarrow> ''text/plain'' | Some t \<Rightarrow> t))"
proof (cases "winner accept")
  case None
  then show ?thesis
    by (simp add: mostAcceptable_sorted firstSupported_find winner_def)
next
  case (Some a)
  then have "supported a"
    unfolding winner_def using find_Some_split [of supported "sortedCandidates accept" a] by blast
  then obtain t where "supportTable (MediaType a) = Some t"
    by (auto simp: supported_def)
  with Some show ?thesis
    by (simp add: mostAcceptable_sorted firstSupported_find winner_def)
qed

lemma mostAcceptable_specResolve:
  assumes "noNaN (candidates accept)"
  shows "mostAcceptable accept = specResolve (candidates accept)"
proof -
  have "winner accept = bestSupported (candidates accept)"
    unfolding winner_def sortedCandidates_def by (rule winner_best [OF assms])
  then show ?thesis
    by (simp add: mostAcceptable_winner specResolve_def)
qed

lemma winner_not_outweighed:
  assumes "noNaN (candidates accept)" and "winner accept = Some a"
    and "b \<in> set (candidates accept)" and "supported b"
  shows "\<not> f64_lt (RelativeWeight a) (RelativeWeight b)"
proof -
  have "winner accept = bestSupported (candidates accept)"
    unfolding winner_def sortedCandidates_def by (rule winner_best [OF assms(1)])
  with assms(2) have "find (\<lambda>a. supported a \<and> \<not> outweighed (candidates accept) a) (candidates accept) = Some a"
    by (simp add: bestSupported_def)
  then have "\<not> outweighed (candidates accept) a"
    using find_Some_split [of "\<lambda>a. supported a \<and> \<not> outweighed (candidates accept) a" "candidates accept" a]
    by blast
  with assms(3,4) show ?thesis
    by (auto simp: outweighed_def list_ex_iff)
qed

lemma Split_not_Nil: "Split s sep \<noteq> []"
  by (induction s) (auto split: list.splits)

lemma Split_no_sep: "t \<in> set (Split s sep) \<Longrightarrow> sep \<notin> set t"
proof (induction s arbitrary: t)
  case Nil
  then show ?case by simp
next
  case (Cons c s)
  obtain u us where sp: "Split s sep = u # us"
    using Split_not_Nil [of s sep] by (cases "Split s sep") auto
  show ?case
  proof (cases "c = sep")
    case True
    with Cons.prems have "t = [] \<or> t \<in> set (Split s sep)" by simp
    with Cons.IH show ?thesis by auto
  next
    case False
    with Cons.prems sp have "t = c # u \<or> t \<in> set us" by simp
    moreover have "sep \<notin> set u" using Cons.IH [of u] sp by simp
    moreover have "t \<in> set us \<Longrightarrow> sep \<notin> set t" using Cons.IH [of t] sp by simp
    ultimately show ?thesis using False by auto
  qed
qed

lemma Split_single: "sep \<notin> set t \<Longrightarrow> Split t sep = [t]"
  by (induction t) auto

lemma Split_append_sep:
  "sep \<notin> set t \<Longrightarrow> Split (t @ sep # s) sep = t # Split s sep"
  by (induction t) auto

lemma Split_Join:
  assumes "ts \<noteq> []" and "\<forall>t \<in> set ts. sep \<notin> set t"
  shows "Split (Join ts sep) sep = ts"
  using assms
proof (induction ts sep rule: Join.induct)
  case (1 sep)
  then show ?case by simp
next
  case (2 t sep)
  then show ?case by (simp add: Split_single)
next
  case (3 t u ts sep)
  then have "Split (Join (u # ts) sep) sep = u # ts" by simp
  moreover from 3 have "sep \<notin> set t" by simp
  ultimately show ?case by (simp add: Split_append_sep)
qed

lemma acceptableLoop_filter: "acceptableLoop (filter parseable vs) = acceptableLoop vs"
  by (induction vs) (auto simp: parseable_def split: sum.splits)

lemma candidates_withoutUnparseable: "candidates (withoutUnparseable accept) = candidates accept"
proof (cases "filter parseable (Split accept (CHR '','')) = []")
  case True
  then have "withoutUnparseable accept = []"
    by (simp add: withoutUnparseable_def)
  then have "candidates (withoutUnparseable accept) = []"
    by (simp add: candidates_def ParseMediaType_empty)
  moreover have "candidates accept = []"
    using acceptableLoop_filter [of "Split accept (CHR '','')"] True
    by (simp add: candidates_def)
  ultimately show ?thesis by simp
next
  case False
  moreover have "\<forall>t \<in> set (filter parseable (Split accept (CHR '',''))). CHR '','' \<notin> set t"
    using Split_no_sep [of _ accept "CHR '',''"] by auto
  ultimately have "Split (withoutUnparseable accept) (CHR '','') = filter parseable (Split accept (CHR '',''))"
    unfolding withoutUnparseable_def by (rule Split_Join)
  then show ?thesis
    by (simp add: candidates_def acceptableLoop_filter)
qed

lemma weightOf_lookup:
  "(case ParseFloat (lookup params ''q'') of Inr val \<Rightarrow> val | Inl err \<Rightarrow> Finite 1) = weightOf params"
  by (cases "params ''q''") (simp_all add: lookup_def weightOf_def ParseFloat_empty split: sum.splits)

lemma acceptableLoop_map_filter:
  "acceptableLoop vs =
     List.map_filter
       (\<lambda>v. case ParseMediaType v of
               Inl err \<Rightarrow> None
             | Inr (m, params) \<Rightarrow> Some \<lparr>MediaType = m, RelativeWeight = weightOf params\<rparr>) vs"
proof (induction vs)
  case Nil
  show ?case by (simp add: List.map_filter_simps)
next
  case (Cons v vs)
  show ?case
  proof (cases "ParseMediaType v")
    case (Inl e)
    with Cons show ?thesis by (simp add: List.map_filter_simps)
  next
    case (Inr r)
    obtain m params where "r = (m, params)" by (cases r)
    with Inr Cons show ?thesis
      by (simp add: List.map_filter_simps weightOf_lookup)
  qed
qed

subsection \<open>The headers of the examples\<close>

lemma candidates_hierarchy:
  "candidates ''text/css, text/plain; q=0.8, text/html; q=0.9'' =
     [\<lparr>MediaType = ''text/css'', RelativeWeight = Finite 1\<rparr>,
      \<lparr>MediaType = ''text/plain'',
       RelativeWeight = Finite (3602879701896397 / 4503599627370496)\<rparr>,
      \<lparr>MediaType = ''text/html'',
       RelativeWeight = Finite (8106479329266893 / 9007199254740992)\<rparr>]"
proof -
  have "Split ''text/css, text/plain; q=0.8, text/html; q=0.9'' (CHR '','')
      = [''text/css'', '' text/plain; q=0.8'', '' text/html; q=0.9'']"
    by simp
  then show ?thesis
    unfolding candidates_def
    by (simp only: acceptableLoop_no_q [OF ParseMediaType_text_css]
          acceptableLoop_q [OF ParseMediaType_plain_08 ParseFloat_08]
          acceptableLoop_q [OF ParseMediaType_html_09 ParseFloat_09] acceptableLoop.simps(1))
qed

lemma sorted_hierarchy:
  "sortedCandidates ''text/css, text/plain; q=0.8, text/html; q=0.9'' =
     [\<lparr>MediaType = ''text/css'', RelativeWeight = Finite 1\<rparr>,
      \<lparr>MediaType = ''text/html'',
       RelativeWeight = Finite (8106479329266893 / 9007199254740992)\<rparr>,
      \<lparr>MediaType = ''text/plain'',
       RelativeWeight = Finite (3602879701896397 / 4503599627370496)\<rparr>]"
  by (simp add: sort_eval candidates_hierarchy)

lemma candidates_with_NaN_between:
  "candidates ''text/plain; q=0.5, lol/wut; q=NaN, text/html; q=0.9'' =
     [\<lparr>MediaType = ''text/plain'', RelativeWeight = Finite (1 / 2)\<rparr>,
      \<lparr>MediaType = ''lol/wut'', RelativeWeight = NaN\<rparr>,
      \<lparr>MediaType = ''text/html'',
       RelativeWeight = Finite (8106479329266893 / 9007199254740992)\<rparr>]"
proof -
  have "Split ''text/plain; q=0.5, lol/wut; q=NaN, text/html; q=0.9'' (CHR '','')
      = [''text/plain; q=0.5'', '' lol/wut; q=NaN'', '' text/html; q=0.9'']"
    by simp
  then show ?thesis
    unfolding candidates_def
    by (simp only: acceptableLoop_q [OF ParseMediaType_plain_05 ParseFloat_05]
          acceptableLoop_q [OF ParseMediaType_wut_NaN ParseFloat_NaN]
          acceptableLoop_q [OF ParseMediaType_html_09 ParseFloat_09] acceptableLoop.simps(1))
qed

lemma candidates_NaN_first:
  "candidates ''text/html; q=NaN, text/plain; q=0.8'' =
     [\<lparr>MediaType = ''text/html'', RelativeWeight = NaN\<rparr>,
      \<lparr>MediaType = ''text/plain'',
       RelativeWeight = Finite (3602879701896397 / 4503599627370496)\<rparr>]"
proof -
  have "Split ''text/html; q=NaN, text/plain; q=0.8'' (CHR '','')
      = [''text/html; q=NaN'', '' text/plain; q=0.8'']"
    by simp
  then show ?thesis
    unfolding candidates_def
    by (simp only: acceptableLoop_q [OF ParseMediaType_html_NaN ParseFloat_NaN]
          acceptableLoop_q [OF ParseMediaType_plain_08 ParseFloat_08] acceptableLoop.simps(1))
qed

lemma candidates_negative_first:
  "candidates ''text/html; q=-1, text/plain; q=0.8'' =
     [\<lparr>MediaType = ''text/html'', RelativeWeight = Finite (- 1)\<rparr>,
      \<lparr>MediaType = ''text/plain'',
       RelativeWeight = Finite (3602879701896397 / 4503599627370496)\<rparr>]"
proof -
  have "Split ''text/html; q=-1, text/plain; q=0.8'' (CHR '','')
      = [''text/html; q=-1'', '' text/plain; q=0.8'']"
    by simp
  then show ?thesis
    unfolding candidates_def
    by (simp only: acceptableLoop_q [OF ParseMediaType_html_neg ParseFloat_neg]
          acceptableLoop_q [OF ParseMediaType_plain_08 ParseFloat_08] acceptableLoop.simps(1))
qed

lemma candidates_single_no_q:
  assumes "ParseMediaType v = Inr (m, Map.empty)" and "CHR '','' \<notin> set v"
  shows "candidates v = [\<lparr>MediaType = m, RelativeWeight = Finite 1\<rparr>]"
  using acceptableLoop_no_q [OF assms(1), of "[]"] assms(2)
  by (simp add: candidates_def Split_single del: acceptableLoop.simps(2))

lemma candidates_single_q:
  assumes "ParseMediaType v = Inr (m, [''q'' \<mapsto> s])" and "ParseFloat s = Inr w"
    and "CHR '','' \<notin> set v"
  shows "candidates v = [\<lparr>MediaType = m, RelativeWeight = w\<rparr>]"
  using acceptableLoop_q [OF assms(1,2), of "[]"] assms(3)
  by (simp add: candidates_def Split_single del: acceptableLoop.simps(2))

lemma mostAcceptable_single:
  assumes "candidates accept = [a]"
  shows "mostAcceptable accept = firstSupported [a]"
  using assms by (simp add: mostAcceptable_sorted sort_eval)

lemma candidates_empty_header: "candidates [] = []"
  by (simp add: candidates_def ParseMediaType_empty)

lemma candidates_lol_wut:
  "candidates ''lol/wut'' = [\<lparr>MediaType = ''lol/wut'', RelativeWeight = Finite 1\<rparr>]"
  by (rule candidates_single_no_q [OF ParseMediaType_lol_wut]) simp

lemma candidates_json_0:
  "candidates ''application/json;q=0'' = [\<lparr>MediaType = ''application/json'', RelativeWeight = Finite 0\<rparr>]"
  by (rule candidates_single_q [OF ParseMediaType_json_0 ParseFloat_0]) simp

lemma candidates_plain_5:
  "candidates ''text/plain; q=5'' = [\<lparr>MediaType = ''text/plain'', RelativeWeight = Finite 5\<rparr>]"
  by (rule candidates_single_q [OF ParseMediaType_plain_5 ParseFloat_5]) simp

subsection \<open>Media types without parameters\<close>

text \<open>
  Token characters are ASCII and are not white space, so \<open>ToLower\<close> maps them
  byte by byte and \<open>TrimSpace\<close> removes exactly the blanks around them.
\<close>

lemma byte_lowerByte:
  "byte (lowerByte c) = (if 0x41 \<le> byte c \<and> byte c \<le> 0x5A then byte c + 0x20 else byte c)"
  by (simp add: lowerByte_def)

lemma isTSpecial_byte:
  "isTSpecial c \<longleftrightarrow> byte c \<in> {40, 41, 60, 62, 64, 44, 59, 58, 92, 34, 47, 91, 93, 63, 61}"
proof -
  have eq: "c = x \<longleftrightarrow> byte c = byte x" for x
    by (metis char_of_char)
  show ?thesis
    unfolding isTSpecial_def tspecials_def
    by (simp add: eq)
qed

lemma isTokenChar_byte:
  "isTokenChar c \<longleftrightarrow>
     0x20 < byte c \<and> byte c < 0x7F
     \<and> byte c \<notin> {40, 41, 60, 62, 64, 44, 59, 58, 92, 34, 47, 91, 93, 63, 61}"
  by (simp only: isTokenChar_def isTSpecial_byte)

lemma isTokenChar_lowerByte: "isTokenChar c \<Longrightarrow> isTokenChar (lowerByte c)"
  by (auto simp: isTokenChar_byte byte_lowerByte)

lemma Decode_ascii: "byte b < 0x80 \<Longrightarrow> DecodeRuneInString (b # s) = (byte b, 1)"
  by (simp add: DecodeRuneInString_def)

lemma ToLower_ascii: "list_all (\<lambda>c. byte c < 0x80) s \<Longrightarrow> ToLower s = map lowerByte s"
  by (induction s) (simp_all add: Decode_ascii)

lemma isTokenChar_not_space: "isTokenChar c \<Longrightarrow> byte c < 0x80 \<and> \<not> IsSpace (byte c)"
  by (auto simp: isTokenChar_def IsSpace_def)

lemma isBlank_space: "isBlank c \<Longrightarrow> byte c < 0x80 \<and> IsSpace (byte c)"
  by (auto simp: isBlank_def IsSpace_def)

lemma lowerByte_isBlank: "isBlank c \<Longrightarrow> lowerByte c = c"
  by (auto simp: isBlank_def lowerByte_def)

lemma TrimLeftSpace_token: "isTokenChar c \<Longrightarrow> TrimLeftSpace (c # cs) = c # cs"
  using isTokenChar_not_space [of c] by (simp add: Decode_ascii)

lemma TrimLeftSpace_blanks:
  "list_all isBlank sp \<Longrightarrow> TrimLeftSpace (sp @ s) = TrimLeftSpace s"
proof (induction sp)
  case Nil
  show ?case by simp
next
  case (Cons c sp)
  then have "byte c < 0x80" "IsSpace (byte c)" using isBlank_space [of c] by simp_all
  with Cons show ?case by (simp add: Decode_ascii)
qed

lemma DecodeLast_ascii:
  "byte c < 0x80 \<Longrightarrow> DecodeLastRuneInString (s @ [c]) = (byte c, 1)"
  by (simp add: DecodeLastRuneInString_def Let_def)

lemma TrimRightSpace_snoc:
  "byte c < 0x80 \<Longrightarrow>
     TrimRightSpace (s @ [c]) = (if IsSpace (byte c) then TrimRightSpace s else s @ [c])"
  by (subst TrimRightSpace.simps) (simp add: DecodeLast_ascii)

lemma TrimRightSpace_token: "isTokenChar c \<Longrightarrow> TrimRightSpace (s @ [c]) = s @ [c]"
  using isTokenChar_not_space [of c] by (simp add: TrimRightSpace_snoc)

lemma TrimRightSpace_blanks:
  "list_all isBlank sp \<Longrightarrow> TrimRightSpace (s @ sp) = TrimRightSpace s"
proof (induction sp rule: rev_induct)
  case Nil
  show ?case by simp
next
  case (snoc c sp)
  then have c: "byte c < 0x80" "IsSpace (byte c)" using isBlank_space [of c] by simp_all
  have "TrimRightSpace ((s @ sp) @ [c]) = TrimRightSpace (s @ sp)"
    using c by (simp only: TrimRightSpace_snoc if_True)
  with snoc show ?case by simp
qed

text \<open>
  A media type is two non-empty tokens with a slash between them;
  \<open>ParseMediaType\<close> returns it in lower case, with no parameters.
\<close>

lemma consumeToken_all: "list_all isTokenChar t \<Longrightarrow> consumeToken t = (t, [])"
  by (simp add: consumeToken_def list_all_iff takeWhile_eq_all_conv dropWhile_eq_Nil_conv)

lemma consumeToken_slash:
  "list_all isTokenChar t \<Longrightarrow> consumeToken (t @ CHR ''/'' # u) = (t, CHR ''/'' # u)"
proof -
  assume a: "list_all isTokenChar t"
  have n: "\<not> isTokenChar (CHR ''/'')"
    by (simp add: isTokenChar_def isTSpecial_def tspecials_def)
  from a have "takeWhile isTokenChar (t @ CHR ''/'' # u) = t @ takeWhile isTokenChar (CHR ''/'' # u)"
    by (simp add: takeWhile_append2 list_all_iff)
  moreover from a have "dropWhile isTokenChar (t @ CHR ''/'' # u) = dropWhile isTokenChar (CHR ''/'' # u)"
    by (simp add: dropWhile_append2 list_all_iff)
  ultimately show ?thesis using n by (simp add: consumeToken_def)
qed

lemma checkMediaTypeDisposition_ok:
  assumes "t \<noteq> []" "u \<noteq> []" "list_all isTokenChar t" "list_all isTokenChar u"
  shows "checkMediaTypeDisposition (t @ CHR ''/'' # u) = None"
  using assms
  by (simp add: checkMediaTypeDisposition_def consumeToken_slash consumeToken_all HasPrefix_def)

lemma TrimSpace_mediatype:
  assumes "t \<noteq> []" "u \<noteq> []" "list_all isTokenChar t" "list_all isTokenChar u"
    and "list_all isBlank sp1" "list_all isBlank sp2"
  shows "TrimSpace (sp1 @ t @ CHR ''/'' # u @ sp2) = t @ CHR ''/'' # u"
proof -
  from assms(1,3) obtain c cs where t: "t = c # cs" and c: "isTokenChar c"
    by (cases t) auto
  from assms(2,4) obtain us d where u: "u = us @ [d]" and d: "isTokenChar d"
    by (cases u rule: rev_cases) auto
  have "TrimLeftSpace (sp1 @ t @ CHR ''/'' # u @ sp2) = TrimLeftSpace (t @ CHR ''/'' # u @ sp2)"
    by (rule TrimLeftSpace_blanks [OF assms(5)])
  moreover have "TrimLeftSpace (c # cs @ CHR ''/'' # u @ sp2) = c # cs @ CHR ''/'' # u @ sp2"
    by (rule TrimLeftSpace_token [OF c])
  ultimately have "TrimLeftSpace (sp1 @ t @ CHR ''/'' # u @ sp2) = t @ CHR ''/'' # u @ sp2"
    using t by (simp del: TrimLeftSpace.simps)
  moreover have "TrimRightSpace ((t @ CHR ''/'' # u) @ sp2) = TrimRightSpace (t @ CHR ''/'' # u)"
    by (rule TrimRightSpace_blanks [OF assms(6)])
  moreover have "TrimRightSpace ((t @ CHR ''/'' # us) @ [d]) = (t @ CHR ''/'' # us) @ [d]"
    by (rule TrimRightSpace_token [OF d])
  ultimately show ?thesis using u by (simp add: TrimSpace_def)
qed

lemma isTokenChar_not_sep: "isTokenChar c \<Longrightarrow> c \<noteq> CHR '';'' \<and> c \<noteq> CHR '',''"
  by (auto simp: isTokenChar_def isTSpecial_def tspecials_def)

lemma isBlank_not_sep: "isBlank c \<Longrightarrow> c \<noteq> CHR '';'' \<and> c \<noteq> CHR '',''"
  by (auto simp: isBlank_def)

lemma no_sep_tokens: "list_all isTokenChar t \<Longrightarrow> CHR '';'' \<notin> set t \<and> CHR '','' \<notin> set t"
  unfolding list_all_iff using isTokenChar_not_sep by blast

lemma no_sep_blanks: "list_all isBlank t \<Longrightarrow> CHR '';'' \<notin> set t \<and> CHR '','' \<notin> set t"
  unfolding list_all_iff using isBlank_not_sep by blast

lemma ParseMediaType_mediatype:
  assumes ne: "typ \<noteq> []" "subtype \<noteq> []"
    and tok: "list_all isTokenChar typ" "list_all isTokenChar subtype"
    and bl: "list_all isBlank sp1" "list_all isBlank sp2"
  shows "ParseMediaType (sp1 @ typ @ ''/'' @ subtype @ sp2)
           = Inr (map lowerByte (typ @ ''/'' @ subtype), Map.empty)"
proof (rule ParseMediaType_steps)
  let ?v = "sp1 @ typ @ ''/'' @ subtype @ sp2"
  have nosemi: "CHR '';'' \<notin> set ?v"
    using no_sep_tokens [OF tok(1)] no_sep_tokens [OF tok(2)] no_sep_blanks [OF bl(1)]
      no_sep_blanks [OF bl(2)]
    by simp
  then have tw: "takeWhile (\<lambda>c. c \<noteq> CHR '';'') ?v = ?v"
    by (simp add: takeWhile_eq_all_conv) blast
  have ascii: "list_all (\<lambda>c. byte c < 0x80) ?v"
    using tok bl isTokenChar_not_space isBlank_space by (auto simp: list_all_iff)
  have "map lowerByte sp1 = sp1" "map lowerByte sp2 = sp2"
    using bl lowerByte_isBlank by (simp_all add: list_all_iff map_idI)
  moreover have "lowerByte (CHR ''/'') = CHR ''/''"
    by (simp add: lowerByte_def)
  ultimately have low: "map lowerByte ?v
      = sp1 @ map lowerByte typ @ CHR ''/'' # map lowerByte subtype @ sp2"
    by simp
  show "ToLower (takeWhile (\<lambda>c. c \<noteq> CHR '';'') ?v)
      = sp1 @ map lowerByte typ @ CHR ''/'' # map lowerByte subtype @ sp2"
    by (simp only: tw ToLower_ascii [OF ascii] low)
  have ltok: "list_all isTokenChar (map lowerByte typ)" "list_all isTokenChar (map lowerByte subtype)"
    using tok isTokenChar_lowerByte by (simp_all add: list_all_iff)
  have lne: "map lowerByte typ \<noteq> []" "map lowerByte subtype \<noteq> []"
    using ne by simp_all
  show "TrimSpace (sp1 @ map lowerByte typ @ CHR ''/'' # map lowerByte subtype @ sp2)
      = map lowerByte (typ @ ''/'' @ subtype)"
    using TrimSpace_mediatype [OF lne ltok bl] \<open>lowerByte (CHR ''/'') = CHR ''/''\<close>
    by simp
  show "checkMediaTypeDisposition (map lowerByte (typ @ ''/'' @ subtype)) = None"
    using checkMediaTypeDisposition_ok [OF lne ltok] \<open>lowerByte (CHR ''/'') = CHR ''/''\<close>
    by simp
  have "dropWhile (\<lambda>c. c \<noteq> CHR '';'') ?v = []"
    using nosemi by (simp add: dropWhile_eq_Nil_conv) blast
  then show "paramLoop (dropWhile (\<lambda>c. c \<noteq> CHR '';'') ?v) Map.empty [] = Inr (Map.empty, [])"
    by (simp only: paramLoop_end)
qed

lemma firstSupported_single:
  "firstSupported [a] = (case supportTable (MediaType a) of None \<Rightarrow> ''text/plain'' | Some t \<Rightarrow> t)"
  by (simp add: supportTable_def)

lemma mostAcceptable_mediatype:
  assumes ne: "typ \<noteq> []" "subtype \<noteq> []"
    and tok: "list_all isTokenChar typ" "list_all isTokenChar subtype"
    and bl: "list_all isBlank sp1" "list_all isBlank sp2"
  shows "candidates (sp1 @ typ @ ''/'' @ subtype @ sp2)
           = [\<lparr>MediaType = map lowerByte (typ @ ''/'' @ subtype), RelativeWeight = Finite 1\<rparr>]"
    and "mostAcceptable (sp1 @ typ @ ''/'' @ subtype @ sp2)
           = (case supportTable (map lowerByte (typ @ ''/'' @ subtype)) of
                None \<Rightarrow> ''text/plain'' | Some t \<Rightarrow> t)"
proof -
  have nocomma: "CHR '','' \<notin> set (sp1 @ typ @ ''/'' @ subtype @ sp2)"
    using no_sep_tokens [OF tok(1)] no_sep_tokens [OF tok(2)] no_sep_blanks [OF bl(1)]
      no_sep_blanks [OF bl(2)]
    by simp
  show c: "candidates (sp1 @ typ @ ''/'' @ subtype @ sp2)
           = [\<lparr>MediaType = map lowerByte (typ @ ''/'' @ subtype), RelativeWeight = Finite 1\<rparr>]"
    by (rule candidates_single_no_q [OF ParseMediaType_mediatype [OF assms] nocomma])
  show "mostAcceptable (sp1 @ typ @ ''/'' @ subtype @ sp2)
           = (case supportTable (map lowerByte (typ @ ''/'' @ subtype)) of
                None \<Rightarrow> ''text/plain'' | Some t \<Rightarrow> t)"
    by (simp only: mostAcceptable_single [OF c] firstSupported_single AcceptType.simps)
qed

subsection \<open>The candidates and the candidate the scan returns at\<close>

lemma winner_member:
  assumes "winner accept = Some a"
  shows "a \<in> set (candidates accept) \<and> supported a"
proof -
  from assms obtain ys zs where "sortedCandidates accept = ys @ a # zs" and s: "supported a"
    unfolding winner_def using find_Some_split [of supported "sortedCandidates accept" a] by blast
  then have "a \<in> set (sortedCandidates accept)" by simp
  then have "a \<in> set (candidates accept)"
    by (simp add: sortedCandidates_def set_SortStableFunc)
  with s show ?thesis by simp
qed

lemma winner_exists:
  assumes "b \<in> set (candidates accept)" and "supported b"
  shows "\<exists>a. winner accept = Some a"
proof (cases "winner accept")
  case None
  then have "\<forall>x \<in> set (candidates accept). \<not> supported x"
    by (simp add: winner_def find_None_iff sortedCandidates_def set_SortStableFunc)
  with assms show ?thesis by blast
next
  case (Some a)
  then show ?thesis by simp
qed

lemma candidate_member:
  assumes "v \<in> set (Split accept (CHR '',''))" and "ParseMediaType v = Inr (m, params)"
  shows "\<lparr>MediaType = m, RelativeWeight = weightOf params\<rparr> \<in> set (candidates accept)"
proof -
  have "acceptableLoop vs =
     List.map_filter
       (\<lambda>v. case ParseMediaType v of
               Inl err \<Rightarrow> None
             | Inr (m, params) \<Rightarrow> Some \<lparr>MediaType = m, RelativeWeight = weightOf params\<rparr>) vs" for vs
    by (rule acceptableLoop_map_filter)
  with assms show ?thesis
    by (force simp: candidates_def map_filter_def)
qed

lemma byWeight_NaN:
  "RelativeWeight a = NaN \<or> RelativeWeight b = NaN \<Longrightarrow> byWeight a b = 0"
  by (cases "RelativeWeight a"; cases "RelativeWeight b") (auto simp: byWeight_def f64_gt_def)

subsection \<open>The result is one of the three media types\<close>

lemma firstSupported_cases:
  "firstSupported as = ''text/plain'' \<or> firstSupported as = ''text/html''
   \<or> firstSupported as = ''application/json''"
  by (induction as) auto

text \<open>
  C4. Whatever the Accept header is, \<open>mostAcceptable\<close> returns \<open>text/plain\<close>,
  \<open>text/html\<close> or \<open>application/json\<close>. So the handler never takes the default
  branch of its switch (the 406 answer): every request is answered with status 200,
  with one of the three bodies rendered at startup, and with the Content-Type that
  is the string \<open>mostAcceptable\<close> returned.
\<close>

theorem mostAcceptable_one_of_three:
  "(mostAcceptable accept = ''text/plain'' \<or> mostAcceptable accept = ''text/html''
      \<or> mostAcceptable accept = ''application/json'')
   \<and> status (licenseHandler plainData htmlData jsonData hdr) = 200
   \<and> contentType (licenseHandler plainData htmlData jsonData hdr)
       = mostAcceptable (headerGet hdr)
   \<and> (licenseHandler plainData htmlData jsonData hdr
         = \<lparr>status = 200, contentType = ''text/plain'', body = plainData\<rparr>
      \<or> licenseHandler plainData htmlData jsonData hdr
         = \<lparr>status = 200, contentType = ''text/html'', body = htmlData\<rparr>
      \<or> licenseHandler plainData htmlData jsonData hdr
         = \<lparr>status = 200, contentType = ''application/json'', body = jsonData\<rparr>)"
proof -
  have three: "mostAcceptable a = ''text/plain'' \<or> mostAcceptable a = ''text/html''
      \<or> mostAcceptable a = ''application/json''" for a
    unfolding mostAcceptable_def by (rule firstSupported_cases)
  from three [of "headerGet hdr"] have
    "status (licenseHandler plainData htmlData jsonData hdr) = 200
     \<and> contentType (licenseHandler plainData htmlData jsonData hdr)
         = mostAcceptable (headerGet hdr)
     \<and> (licenseHandler plainData htmlData jsonData hdr
           = \<lparr>status = 200, contentType = ''text/plain'', body = plainData\<rparr>
        \<or> licenseHandler plainData htmlData jsonData hdr
           = \<lparr>status = 200, contentType = ''text/html'', body = htmlData\<rparr>
        \<or> licenseHandler plainData htmlData jsonData hdr
           = \<lparr>status = 200, contentType = ''application/json'', body = jsonData\<rparr>)"
    by (auto simp: licenseHandler_def Let_def)
  with three [of accept] show ?thesis by blast
qed

subsection \<open>Sorting by weight and the first supported candidate\<close>

text \<open>
  C1 (as amended). For every Accept header none of whose candidates has the weight
  NaN: the sorted candidates are a permutation of the candidates, descending by
  weight, with the candidates of one weight in the order of the header (the sort is
  stable); \<open>mostAcceptable\<close> returns the mapped type of the first supported
  candidate in that order, which is the earliest listed of the supported candidates
  that no supported candidate outweighs, so an unsupported candidate never wins,
  whatever its weight. In particular the header
  \<open>text/css, text/plain; q=0.8, text/html; q=0.9\<close> resolves to \<open>text/html\<close>.
\<close>

theorem mostAcceptable_stable_sort:
  "(noNaN (candidates accept) \<longrightarrow>
       mset (sortedCandidates accept) = mset (candidates accept)
     \<and> descending (sortedCandidates accept)
     \<and> (\<forall>w. filter (\<lambda>a. RelativeWeight a = w) (sortedCandidates accept)
            = filter (\<lambda>a. RelativeWeight a = w) (candidates accept))
     \<and> mostAcceptable accept = firstSupported (sortedCandidates accept)
     \<and> winner accept = bestSupported (candidates accept)
     \<and> mostAcceptable accept = specResolve (candidates accept))
   \<and> mostAcceptable ''text/css, text/plain; q=0.8, text/html; q=0.9'' = ''text/html''"
proof (intro conjI impI allI)
  assume nn: "noNaN (candidates accept)"
  show "mset (sortedCandidates accept) = mset (candidates accept)"
    by (simp add: sortedCandidates_def mset_SortStableFunc)
  show "descending (sortedCandidates accept)"
    unfolding sortedCandidates_def by (rule descending_SortStableFunc [OF nn])
  show "filter (\<lambda>a. RelativeWeight a = w) (sortedCandidates accept)
          = filter (\<lambda>a. RelativeWeight a = w) (candidates accept)" for w
    unfolding sortedCandidates_def by (rule stable_SortStableFunc) simp
  show "mostAcceptable accept = firstSupported (sortedCandidates accept)"
    by (rule mostAcceptable_sorted)
  show "winner accept = bestSupported (candidates accept)"
    unfolding winner_def sortedCandidates_def by (rule winner_best [OF nn])
  show "mostAcceptable accept = specResolve (candidates accept)"
    by (rule mostAcceptable_specResolve [OF nn])
next
  show "mostAcceptable ''text/css, text/plain; q=0.8, text/html; q=0.9'' = ''text/html''"
    by (simp add: mostAcceptable_sorted sorted_hierarchy)
qed

text \<open>The header of the example has no NaN weight, and the theorem applies to it.\<close>

theorem mostAcceptable_stable_sort_witness:
  "noNaN (candidates ''text/css, text/plain; q=0.8, text/html; q=0.9'')
   \<and> descending (sortedCandidates ''text/css, text/plain; q=0.8, text/html; q=0.9'')
   \<and> winner ''text/css, text/plain; q=0.8, text/html; q=0.9''
       = bestSupported (candidates ''text/css, text/plain; q=0.8, text/html; q=0.9'')
   \<and> specResolve (candidates ''text/css, text/plain; q=0.8, text/html; q=0.9'') = ''text/html''"
proof -
  let ?h = "''text/css, text/plain; q=0.8, text/html; q=0.9''"
  have nn: "noNaN (candidates ?h)"
    by (simp add: noNaN_def candidates_hierarchy)
  note inst = mostAcceptable_stable_sort [of ?h]
  from inst nn have d: "descending (sortedCandidates ?h)" by blast
  from inst nn have w: "winner ?h = bestSupported (candidates ?h)" by blast
  from inst nn have "mostAcceptable ?h = specResolve (candidates ?h)" by blast
  moreover from inst have "mostAcceptable ?h = ''text/html''" by blast
  ultimately have r: "specResolve (candidates ?h) = ''text/html''" by simp
  from nn d w r show ?thesis by (intro conjI)
qed

text \<open>
  Without the restriction C1 fails. In \<open>text/plain; q=0.5, lol/wut; q=NaN,
  text/html; q=0.9\<close> the comparison function returns 0 for every pair with the
  NaN weight, so the insertion sort moves nothing: the candidates stay in the order
  of the header, which is not descending, and \<open>text/plain\<close> (weight 0.5) is
  returned although the supported \<open>text/html\<close> has the higher weight 0.9.
\<close>

theorem mostAcceptable_NaN_counterexample:
  "sortedCandidates ''text/plain; q=0.5, lol/wut; q=NaN, text/html; q=0.9'' =
     [\<lparr>MediaType = ''text/plain'', RelativeWeight = Finite (1 / 2)\<rparr>,
      \<lparr>MediaType = ''lol/wut'', RelativeWeight = NaN\<rparr>,
      \<lparr>MediaType = ''text/html'',
       RelativeWeight = Finite (8106479329266893 / 9007199254740992)\<rparr>]
   \<and> \<not> descending (sortedCandidates ''text/plain; q=0.5, lol/wut; q=NaN, text/html; q=0.9'')
   \<and> f64_gt (Finite (8106479329266893 / 9007199254740992)) (Finite (1 / 2))
   \<and> mostAcceptable ''text/plain; q=0.5, lol/wut; q=NaN, text/html; q=0.9'' = ''text/plain''
   \<and> specResolve (candidates ''text/plain; q=0.5, lol/wut; q=NaN, text/html; q=0.9'')
       = ''text/html''"
proof -
  have s: "sortedCandidates ''text/plain; q=0.5, lol/wut; q=NaN, text/html; q=0.9'' =
     [\<lparr>MediaType = ''text/plain'', RelativeWeight = Finite (1 / 2)\<rparr>,
      \<lparr>MediaType = ''lol/wut'', RelativeWeight = NaN\<rparr>,
      \<lparr>MediaType = ''text/html'',
       RelativeWeight = Finite (8106479329266893 / 9007199254740992)\<rparr>]"
    by (simp add: sort_eval candidates_with_NaN_between)
  have d: "\<not> descending (sortedCandidates ''text/plain; q=0.5, lol/wut; q=NaN, text/html; q=0.9'')"
    by (simp add: s descending_def)
  have g: "f64_gt (Finite (8106479329266893 / 9007199254740992)) (Finite (1 / 2))"
    by (simp add: f64_gt_def)
  have m: "mostAcceptable ''text/plain; q=0.5, lol/wut; q=NaN, text/html; q=0.9'' = ''text/plain''"
    by (simp add: mostAcceptable_sorted s)
  have r: "specResolve (candidates ''text/plain; q=0.5, lol/wut; q=NaN, text/html; q=0.9'')
       = ''text/html''"
    by (simp add: candidates_with_NaN_between specResolve_def bestSupported_def outweighed_def
          supported_def supportTable_def)
  from s d g m r show ?thesis by (intro conjI)
qed

subsection \<open>Single media types\<close>

text \<open>
  C2. A header that is one media type without parameters is mapped by the table.
  For every header made of a non-empty type token, a slash and a non-empty subtype
  token, in any letter case and with any blanks around it, the only candidate is
  that media type in lower case with the weight 1.0, and \<open>mostAcceptable\<close>
  returns the entry of the support table for it (\<open>text/plain\<close> when the table
  has none). In particular \<open>text/plain\<close> and \<open>*/*\<close> give \<open>text/plain\<close>;
  \<open>text/html\<close> and \<open>application/xhtml+xml\<close> give \<open>text/html\<close>;
  \<open>application/json\<close> gives \<open>application/json\<close>; and so do their spellings
  in upper case or with a leading blank, as \<open>Text/HTML\<close>.
\<close>

theorem mostAcceptable_single_types:
  "(typ \<noteq> [] \<longrightarrow> subtype \<noteq> [] \<longrightarrow> list_all isTokenChar typ \<longrightarrow> list_all isTokenChar subtype
      \<longrightarrow> list_all isBlank sp1 \<longrightarrow> list_all isBlank sp2 \<longrightarrow>
        candidates (sp1 @ typ @ ''/'' @ subtype @ sp2)
          = [\<lparr>MediaType = map lowerByte (typ @ ''/'' @ subtype), RelativeWeight = Finite 1\<rparr>]
        \<and> mostAcceptable (sp1 @ typ @ ''/'' @ subtype @ sp2)
          = (case supportTable (map lowerByte (typ @ ''/'' @ subtype)) of
               None \<Rightarrow> ''text/plain'' | Some t \<Rightarrow> t))
   \<and> mostAcceptable ''text/plain'' = ''text/plain''
   \<and> mostAcceptable ''*/*'' = ''text/plain''
   \<and> mostAcceptable ''text/html'' = ''text/html''
   \<and> mostAcceptable ''application/xhtml+xml'' = ''text/html''
   \<and> mostAcceptable ''application/json'' = ''application/json''
   \<and> mostAcceptable ''Text/HTML'' = ''text/html''
   \<and> mostAcceptable '' text/html'' = ''text/html''"
proof (intro conjI impI)
  assume a: "typ \<noteq> []" "subtype \<noteq> []" "list_all isTokenChar typ" "list_all isTokenChar subtype"
    "list_all isBlank sp1" "list_all isBlank sp2"
  show "candidates (sp1 @ typ @ ''/'' @ subtype @ sp2)
          = [\<lparr>MediaType = map lowerByte (typ @ ''/'' @ subtype), RelativeWeight = Finite 1\<rparr>]"
    by (rule mostAcceptable_mediatype(1) [OF a])
  show "mostAcceptable (sp1 @ typ @ ''/'' @ subtype @ sp2)
          = (case supportTable (map lowerByte (typ @ ''/'' @ subtype)) of
               None \<Rightarrow> ''text/plain'' | Some t \<Rightarrow> t)"
    by (rule mostAcceptable_mediatype(2) [OF a])
next
  have "candidates ''text/plain'' = [\<lparr>MediaType = ''text/plain'', RelativeWeight = Finite 1\<rparr>]"
    by (rule candidates_single_no_q [OF ParseMediaType_text_plain]) simp
  then show "mostAcceptable ''text/plain'' = ''text/plain''"
    by (simp add: mostAcceptable_single)
  have "candidates ''*/*'' = [\<lparr>MediaType = ''*/*'', RelativeWeight = Finite 1\<rparr>]"
    by (rule candidates_single_no_q [OF ParseMediaType_any]) simp
  then show "mostAcceptable ''*/*'' = ''text/plain''"
    by (simp add: mostAcceptable_single)
  have "candidates ''text/html'' = [\<lparr>MediaType = ''text/html'', RelativeWeight = Finite 1\<rparr>]"
    by (rule candidates_single_no_q [OF ParseMediaType_text_html]) simp
  then show "mostAcceptable ''text/html'' = ''text/html''"
    by (simp add: mostAcceptable_single)
  have "candidates ''application/xhtml+xml''
      = [\<lparr>MediaType = ''application/xhtml+xml'', RelativeWeight = Finite 1\<rparr>]"
    by (rule candidates_single_no_q [OF ParseMediaType_xhtml]) simp
  then show "mostAcceptable ''application/xhtml+xml'' = ''text/html''"
    by (simp add: mostAcceptable_single)
  have "candidates ''application/json''
      = [\<lparr>MediaType = ''application/json'', RelativeWeight = Finite 1\<rparr>]"
    by (rule candidates_single_no_q [OF ParseMediaType_json]) simp
  then show "mostAcceptable ''application/json'' = ''application/json''"
    by (simp add: mostAcceptable_single)
  have th: "list_all isTokenChar ''Text''" "list_all isTokenChar ''HTML''"
    "list_all isTokenChar ''text''" "list_all isTokenChar ''html''"
    by (simp_all add: isTokenChar_def isTSpecial_def tspecials_def)
  have "mostAcceptable ([] @ ''Text'' @ ''/'' @ ''HTML'' @ [])
      = (case supportTable (map lowerByte (''Text'' @ ''/'' @ ''HTML'')) of
           None \<Rightarrow> ''text/plain'' | Some t \<Rightarrow> t)"
    by (rule mostAcceptable_mediatype(2) [OF _ _ th(1) th(2)]) simp_all
  then show "mostAcceptable ''Text/HTML'' = ''text/html''"
    by (simp add: lower_eval supportTable_def)
  have "mostAcceptable ('' '' @ ''text'' @ ''/'' @ ''html'' @ [])
      = (case supportTable (map lowerByte (''text'' @ ''/'' @ ''html'')) of
           None \<Rightarrow> ''text/plain'' | Some t \<Rightarrow> t)"
    by (rule mostAcceptable_mediatype(2) [OF _ _ th(3) th(4)]) (simp_all add: isBlank_def)
  then show "mostAcceptable '' text/html'' = ''text/html''"
    by (simp add: lower_eval supportTable_def)
qed

text \<open>
  The header \<open>Application/JSON\<close> between a space and a tab has the one candidate
  \<open>application/json\<close> and resolves to it.
\<close>

theorem mostAcceptable_single_types_witness:
  "list_all isTokenChar ''Application'' \<and> list_all isTokenChar ''JSON''
   \<and> list_all isBlank '' '' \<and> list_all isBlank [CHR 0x09]
   \<and> candidates ('' '' @ ''Application'' @ ''/'' @ ''JSON'' @ [CHR 0x09])
       = [\<lparr>MediaType = ''application/json'', RelativeWeight = Finite 1\<rparr>]
   \<and> mostAcceptable ('' '' @ ''Application'' @ ''/'' @ ''JSON'' @ [CHR 0x09]) = ''application/json''"
proof -
  have t: "list_all isTokenChar ''Application''" "list_all isTokenChar ''JSON''"
    by (simp_all add: isTokenChar_def isTSpecial_def tspecials_def)
  have b: "list_all isBlank '' ''" "list_all isBlank [CHR 0x09]"
    by (simp_all add: isBlank_def)
  have n: "''Application'' \<noteq> []" "''JSON'' \<noteq> []"
    by simp_all
  have l: "map lowerByte (''Application'' @ ''/'' @ ''JSON'') = ''application/json''"
    by (simp add: lower_eval)
  from mostAcceptable_single_types [of "''Application''" "''JSON''" "'' ''" "[CHR 0x09]"] n t b
  have "candidates ('' '' @ ''Application'' @ ''/'' @ ''JSON'' @ [CHR 0x09])
          = [\<lparr>MediaType = map lowerByte (''Application'' @ ''/'' @ ''JSON''),
              RelativeWeight = Finite 1\<rparr>]"
    and "mostAcceptable ('' '' @ ''Application'' @ ''/'' @ ''JSON'' @ [CHR 0x09])
          = (case supportTable (map lowerByte (''Application'' @ ''/'' @ ''JSON'')) of
               None \<Rightarrow> ''text/plain'' | Some t \<Rightarrow> t)"
    by blast+
  then have "candidates ('' '' @ ''Application'' @ ''/'' @ ''JSON'' @ [CHR 0x09])
       = [\<lparr>MediaType = ''application/json'', RelativeWeight = Finite 1\<rparr>]"
    and "mostAcceptable ('' '' @ ''Application'' @ ''/'' @ ''JSON'' @ [CHR 0x09]) = ''application/json''"
    by (simp_all only: l) (simp add: supportTable_def)
  with t b show ?thesis by (intro conjI)
qed

subsection \<open>The default\<close>

text \<open>
  C3. When no candidate of the header is supported, \<open>mostAcceptable\<close> returns
  \<open>text/plain\<close>. The empty header has no candidates, so it resolves to
  \<open>text/plain\<close>, and so does \<open>lol/wut\<close>.
\<close>

theorem mostAcceptable_default:
  "((\<forall>a \<in> set (candidates accept). \<not> supported a) \<longrightarrow> mostAcceptable accept = ''text/plain'')
   \<and> candidates [] = []
   \<and> mostAcceptable [] = ''text/plain''
   \<and> mostAcceptable ''lol/wut'' = ''text/plain''"
proof (intro conjI impI)
  assume "\<forall>a \<in> set (candidates accept). \<not> supported a"
  then have "find supported (sortedCandidates accept) = None"
    by (simp add: find_None_iff sortedCandidates_def set_SortStableFunc)
  then show "mostAcceptable accept = ''text/plain''"
    by (simp add: mostAcceptable_winner winner_def)
next
  show "candidates [] = []" by (rule candidates_empty_header)
  show "mostAcceptable [] = ''text/plain''"
    by (simp add: mostAcceptable_sorted sort_eval candidates_empty_header)
  show "mostAcceptable ''lol/wut'' = ''text/plain''"
    by (simp add: mostAcceptable_single [OF candidates_lol_wut])
qed

text \<open>The candidate of \<open>lol/wut\<close> is not supported, so the theorem applies to it.\<close>

theorem mostAcceptable_default_witness:
  "candidates ''lol/wut'' = [\<lparr>MediaType = ''lol/wut'', RelativeWeight = Finite 1\<rparr>]
   \<and> \<not> supported \<lparr>MediaType = ''lol/wut'', RelativeWeight = Finite 1\<rparr>
   \<and> mostAcceptable ''lol/wut'' = ''text/plain''"
proof -
  have n: "\<not> supported \<lparr>MediaType = ''lol/wut'', RelativeWeight = Finite 1\<rparr>"
    by (simp add: supported_def supportTable_def)
  then have "\<forall>a \<in> set (candidates ''lol/wut''). \<not> supported a"
    by (simp add: candidates_lol_wut)
  with mostAcceptable_default [of "''lol/wut''"] have "mostAcceptable ''lol/wut'' = ''text/plain''"
    by blast
  with candidates_lol_wut n show ?thesis by (intro conjI)
qed

subsection \<open>NaN and negative weights\<close>

text \<open>
  C5 (as amended). Negotiation returns one of the three media types for every
  header, also when a \<open>q\<close> parameter reads as NaN or as a negative number: the
  result is the table entry of the first supported candidate of the sorted list.
  Such a weight is kept as parsed, neither clamped nor discarded: whatever value
  \<open>ParseFloat\<close> returns for the \<open>q\<close> of a piece is the weight of its candidate,
  before and after the sort. NaN does enter the comparisons of the sort: the list
  that is scanned is the candidates sorted with \<open>byWeight\<close>, which returns 0 for
  every pair with a NaN weight. When no candidate has the weight NaN, the result is
  the one the specification selects and the candidate that is returned is not
  outweighed by any supported candidate; so a candidate with a negative weight is
  returned only when every supported candidate has a negative weight, and when some
  supported candidate has a weight of zero or more, the result is the table entry of
  such a candidate.
\<close>

theorem negative_weight_not_preferred:
  "(mostAcceptable accept = ''text/plain'' \<or> mostAcceptable accept = ''text/html''
      \<or> mostAcceptable accept = ''application/json'')
   \<and> mostAcceptable accept
       = (case winner accept of
            None \<Rightarrow> ''text/plain''
          | Some c \<Rightarrow> (case supportTable (MediaType c) of None \<Rightarrow> ''text/plain'' | Some t \<Rightarrow> t))
   \<and> (v \<in> set (Split accept (CHR '','')) \<longrightarrow> ParseMediaType v = Inr (m, params)
        \<longrightarrow> params ''q'' = Some s \<longrightarrow> ParseFloat s = Inr x
        \<longrightarrow> \<lparr>MediaType = m, RelativeWeight = x\<rparr> \<in> set (candidates accept)
            \<and> \<lparr>MediaType = m, RelativeWeight = x\<rparr> \<in> set (sortedCandidates accept))
   \<and> mostAcceptable accept = firstSupported (SortStableFunc byWeight (candidates accept))
   \<and> (RelativeWeight a = NaN \<or> RelativeWeight b = NaN \<longrightarrow> byWeight a b = 0)
   \<and> (noNaN (candidates accept) \<longrightarrow> mostAcceptable accept = specResolve (candidates accept))
   \<and> (noNaN (candidates accept) \<longrightarrow> winner accept = Some a
        \<longrightarrow> b \<in> set (candidates accept) \<longrightarrow> supported b
        \<longrightarrow> \<not> f64_lt (RelativeWeight a) (RelativeWeight b))
   \<and> (noNaN (candidates accept) \<longrightarrow> winner accept = Some a
        \<longrightarrow> f64_lt (RelativeWeight a) (Finite 0)
        \<longrightarrow> b \<in> set (candidates accept) \<longrightarrow> supported b
        \<longrightarrow> f64_lt (RelativeWeight b) (Finite 0))
   \<and> (noNaN (candidates accept) \<longrightarrow> b \<in> set (candidates accept) \<longrightarrow> supported b
        \<longrightarrow> \<not> f64_lt (RelativeWeight b) (Finite 0)
        \<longrightarrow> (\<exists>c \<in> set (candidates accept).
               supported c \<and> \<not> f64_lt (RelativeWeight c) (Finite 0)
               \<and> Some (mostAcceptable accept) = supportTable (MediaType c)))"
proof (intro conjI impI)
  show "mostAcceptable accept = ''text/plain'' \<or> mostAcceptable accept = ''text/html''
      \<or> mostAcceptable accept = ''application/json''"
    unfolding mostAcceptable_def by (rule firstSupported_cases)
next
  show "mostAcceptable accept
       = (case winner accept of
            None \<Rightarrow> ''text/plain''
          | Some c \<Rightarrow> (case supportTable (MediaType c) of None \<Rightarrow> ''text/plain'' | Some t \<Rightarrow> t))"
    by (rule mostAcceptable_winner)
next
  assume a: "v \<in> set (Split accept (CHR '',''))" "ParseMediaType v = Inr (m, params)"
    "params ''q'' = Some s" "ParseFloat s = Inr x"
  from a(3,4) have "weightOf params = x" by (simp add: weightOf_def)
  with candidate_member [OF a(1,2)]
  show c: "\<lparr>MediaType = m, RelativeWeight = x\<rparr> \<in> set (candidates accept)" by simp
  then show "\<lparr>MediaType = m, RelativeWeight = x\<rparr> \<in> set (sortedCandidates accept)"
    by (simp add: sortedCandidates_def set_SortStableFunc)
next
  show "mostAcceptable accept = firstSupported (SortStableFunc byWeight (candidates accept))"
    by (simp add: mostAcceptable_def candidates_def)
next
  assume "RelativeWeight a = NaN \<or> RelativeWeight b = NaN"
  then show "byWeight a b = 0" by (rule byWeight_NaN)
next
  assume "noNaN (candidates accept)"
  then show "mostAcceptable accept = specResolve (candidates accept)"
    by (rule mostAcceptable_specResolve)
next
  assume "noNaN (candidates accept)" "winner accept = Some a"
    "b \<in> set (candidates accept)" "supported b"
  then show "\<not> f64_lt (RelativeWeight a) (RelativeWeight b)"
    by (rule winner_not_outweighed)
next
  assume nn: "noNaN (candidates accept)" and w: "winner accept = Some a"
    and neg: "f64_lt (RelativeWeight a) (Finite 0)"
    and b: "b \<in> set (candidates accept)" "supported b"
  from nn b(1) have bn: "RelativeWeight b \<noteq> NaN"
    by (simp add: noNaN_def list_all_iff)
  have "\<not> f64_lt (RelativeWeight a) (RelativeWeight b)"
    by (rule winner_not_outweighed [OF nn w b])
  with neg bn show "f64_lt (RelativeWeight b) (Finite 0)"
    using f64_lt_ntrans [of "RelativeWeight b" "RelativeWeight a" "Finite 0"] by blast
next
  assume nn: "noNaN (candidates accept)" and b: "b \<in> set (candidates accept)" "supported b"
    and pos: "\<not> f64_lt (RelativeWeight b) (Finite 0)"
  from winner_exists [OF b] obtain c where w: "winner accept = Some c" by blast
  from winner_member [OF w] have c: "c \<in> set (candidates accept)" "supported c" by simp_all
  from nn b(1) have bn: "RelativeWeight b \<noteq> NaN"
    by (simp add: noNaN_def list_all_iff)
  have "\<not> f64_lt (RelativeWeight c) (RelativeWeight b)"
    by (rule winner_not_outweighed [OF nn w b])
  with pos bn have cpos: "\<not> f64_lt (RelativeWeight c) (Finite 0)"
    using f64_lt_ntrans [of "RelativeWeight b" "RelativeWeight c" "Finite 0"] by blast
  from c(2) obtain t where t: "supportTable (MediaType c) = Some t"
    by (auto simp: supported_def)
  with w have "Some (mostAcceptable accept) = supportTable (MediaType c)"
    by (simp add: mostAcceptable_winner)
  with c cpos show "\<exists>c \<in> set (candidates accept).
               supported c \<and> \<not> f64_lt (RelativeWeight c) (Finite 0)
               \<and> Some (mostAcceptable accept) = supportTable (MediaType c)"
    by blast
qed

text \<open>
  In \<open>text/html; q=-1, text/plain; q=0.8\<close> the first piece keeps the weight -1
  that \<open>ParseFloat\<close> returns, no weight is NaN, and the result is \<open>text/plain\<close>,
  the supported candidate whose weight is not negative.
\<close>

theorem negative_weight_not_preferred_witness:
  "''text/html; q=-1'' \<in> set (Split ''text/html; q=-1, text/plain; q=0.8'' (CHR '',''))
   \<and> ParseMediaType ''text/html; q=-1'' = Inr (''text/html'', [''q'' \<mapsto> ''-1''])
   \<and> ParseFloat ''-1'' = Inr (Finite (- 1))
   \<and> \<lparr>MediaType = ''text/html'', RelativeWeight = Finite (- 1)\<rparr>
       \<in> set (sortedCandidates ''text/html; q=-1, text/plain; q=0.8'')
   \<and> noNaN (candidates ''text/html; q=-1, text/plain; q=0.8'')
   \<and> supported \<lparr>MediaType = ''text/html'', RelativeWeight = Finite (- 1)\<rparr>
   \<and> f64_lt (Finite (- 1)) (Finite 0)
   \<and> supported \<lparr>MediaType = ''text/plain'',
                 RelativeWeight = Finite (3602879701896397 / 4503599627370496)\<rparr>
   \<and> \<not> f64_lt (Finite (3602879701896397 / 4503599627370496)) (Finite 0)
   \<and> mostAcceptable ''text/html; q=-1, text/plain; q=0.8'' = ''text/plain''"
proof -
  let ?h = "''text/html; q=-1, text/plain; q=0.8''"
  let ?p = "\<lparr>MediaType = ''text/plain'',
             RelativeWeight = Finite (3602879701896397 / 4503599627370496)\<rparr>"
  let ?n = "\<lparr>MediaType = ''text/html'', RelativeWeight = Finite (- 1)\<rparr>"
  note inst = negative_weight_not_preferred
    [of ?h "''text/html; q=-1''" "''text/html''" "[''q'' \<mapsto> ''-1'']" "''-1''" "Finite (- 1)" ?n ?p]
  have sp: "''text/html; q=-1'' \<in> set (Split ?h (CHR '',''))"
    by simp
  have q: "[''q'' \<mapsto> ''-1''] ''q'' = Some ''-1''"
    by simp
  from inst sp ParseMediaType_html_neg q ParseFloat_neg
  have kept: "?n \<in> set (sortedCandidates ?h)" by blast
  have nn: "noNaN (candidates ?h)"
    by (simp add: noNaN_def candidates_negative_first)
  have sn: "supported ?n" and spl: "supported ?p"
    by (simp_all add: supported_def supportTable_def)
  have ng: "f64_lt (Finite (- 1)) (Finite 0)"
    and ps: "\<not> f64_lt (Finite (3602879701896397 / 4503599627370496)) (Finite 0)"
    by simp_all
  have pm: "?p \<in> set (candidates ?h)"
    by (simp add: candidates_negative_first)
  have ps': "\<not> f64_lt (RelativeWeight ?p) (Finite 0)"
    by simp
  from inst nn pm spl ps'
  have "\<exists>c \<in> set (candidates ?h). supported c \<and> \<not> f64_lt (RelativeWeight c) (Finite 0)
          \<and> Some (mostAcceptable ?h) = supportTable (MediaType c)"
    by blast
  then have "Some (mostAcceptable ?h) = supportTable ''text/plain''"
    by (simp add: candidates_negative_first)
  then have m: "mostAcceptable ?h = ''text/plain''"
    by (simp add: supportTable_def)
  from sp ParseMediaType_html_neg ParseFloat_neg kept nn sn ng spl ps m
  show ?thesis by (intro conjI)
qed

text \<open>
  C5 as it is stated fails. In \<open>text/html; q=NaN, text/plain; q=0.8\<close> the first
  candidate keeps the weight NaN, the comparison with it returns 0, the sort leaves
  it in front, and \<open>text/html\<close> is returned in preference to the supported
  \<open>text/plain\<close> with the valid weight 0.8.
\<close>

theorem NaN_weight_preferred_counterexample:
  "candidates ''text/html; q=NaN, text/plain; q=0.8'' =
     [\<lparr>MediaType = ''text/html'', RelativeWeight = NaN\<rparr>,
      \<lparr>MediaType = ''text/plain'',
       RelativeWeight = Finite (3602879701896397 / 4503599627370496)\<rparr>]
   \<and> supported \<lparr>MediaType = ''text/plain'',
                 RelativeWeight = Finite (3602879701896397 / 4503599627370496)\<rparr>
   \<and> winner ''text/html; q=NaN, text/plain; q=0.8''
       = Some \<lparr>MediaType = ''text/html'', RelativeWeight = NaN\<rparr>
   \<and> mostAcceptable ''text/html; q=NaN, text/plain; q=0.8'' = ''text/html''"
proof -
  let ?h = "''text/html; q=NaN, text/plain; q=0.8''"
  have s: "sortedCandidates ?h =
     [\<lparr>MediaType = ''text/html'', RelativeWeight = NaN\<rparr>,
      \<lparr>MediaType = ''text/plain'',
       RelativeWeight = Finite (3602879701896397 / 4503599627370496)\<rparr>]"
    by (simp add: sort_eval candidates_NaN_first)
  have p: "supported \<lparr>MediaType = ''text/plain'',
                 RelativeWeight = Finite (3602879701896397 / 4503599627370496)\<rparr>"
    by (simp add: supported_def supportTable_def)
  have w: "winner ?h = Some \<lparr>MediaType = ''text/html'', RelativeWeight = NaN\<rparr>"
    by (simp add: winner_def s supported_def supportTable_def)
  have m: "mostAcceptable ?h = ''text/html''"
    by (simp add: mostAcceptable_sorted s)
  from candidates_NaN_first p w m show ?thesis by (intro conjI)
qed

subsection \<open>Pieces that do not parse\<close>

text \<open>
  C6. A piece of the header that \<open>ParseMediaType\<close> refuses is passed over:
  \<open>mostAcceptable\<close> returns for the header what it returns for the header without
  those pieces, and the handler answers both with status 200.
\<close>

theorem unparseable_pieces_ignored:
  "mostAcceptable accept = mostAcceptable (withoutUnparseable accept)
   \<and> status (licenseHandler plainData htmlData jsonData [accept]) = 200
   \<and> licenseHandler plainData htmlData jsonData [accept]
       = licenseHandler plainData htmlData jsonData [withoutUnparseable accept]"
proof -
  have m: "mostAcceptable accept = mostAcceptable (withoutUnparseable accept)"
    by (simp add: mostAcceptable_sorted sortedCandidates_def candidates_withoutUnparseable)
  have "mostAcceptable accept = ''text/plain'' \<or> mostAcceptable accept = ''text/html''
      \<or> mostAcceptable accept = ''application/json''"
    unfolding mostAcceptable_def by (rule firstSupported_cases)
  then have s: "status (licenseHandler plainData htmlData jsonData [accept]) = 200"
    by (auto simp: licenseHandler_def headerGet_def Let_def)
  have e: "licenseHandler plainData htmlData jsonData [accept]
       = licenseHandler plainData htmlData jsonData [withoutUnparseable accept]"
    using m by (simp add: licenseHandler_def headerGet_def)
  from m s e show ?thesis by (intro conjI)
qed

subsection \<open>The weight of a candidate\<close>

text \<open>
  C7 (as amended). The candidates are, in the order of the header, one for each piece
  that \<open>ParseMediaType\<close> accepts, with the media type it returns and the weight
  \<open>weightOf\<close> of its parameters: exactly 1.0 when \<open>q\<close> is absent or
  \<open>ParseFloat\<close> refuses it, and otherwise the value \<open>ParseFloat\<close> returns,
  whatever it is (no restriction to the interval from 0 to 1).
\<close>

theorem candidate_weight:
  "candidates accept =
     List.map_filter
       (\<lambda>v. case ParseMediaType v of
               Inl err \<Rightarrow> None
             | Inr (m, params) \<Rightarrow> Some \<lparr>MediaType = m, RelativeWeight = weightOf params\<rparr>)
       (Split accept (CHR '',''))
   \<and> (params ''q'' = None \<longrightarrow> weightOf params = Finite 1)
   \<and> (params ''q'' = Some s \<longrightarrow> ParseFloat s = Inl e \<longrightarrow> weightOf params = Finite 1)
   \<and> (params ''q'' = Some s \<longrightarrow> ParseFloat s = Inr x \<longrightarrow> weightOf params = x)"
  by (simp add: candidates_def acceptableLoop_map_filter weightOf_def)

text \<open>The three cases of the weight, at the parameters of pieces used above.\<close>

theorem candidate_weight_witness:
  "weightOf Map.empty = Finite 1
   \<and> weightOf [''q'' \<mapsto> ''''] = Finite 1
   \<and> weightOf [''q'' \<mapsto> ''0.8''] = Finite (3602879701896397 / 4503599627370496)"
proof -
  have "weightOf Map.empty = Finite 1"
    using candidate_weight [of _ Map.empty] by simp
  moreover have "weightOf [''q'' \<mapsto> ''''] = Finite 1"
    using candidate_weight [of _ "[''q'' \<mapsto> '''']" "''''" ErrSyntax] ParseFloat_empty by simp
  moreover have "weightOf [''q'' \<mapsto> ''0.8''] = Finite (3602879701896397 / 4503599627370496)"
    using candidate_weight [of _ "[''q'' \<mapsto> ''0.8'']" "''0.8''" _
        "Finite (3602879701896397 / 4503599627370496)"] ParseFloat_08
    by simp
  ultimately show ?thesis by (intro conjI)
qed

text \<open>
  C7 as it is stated fails: the weight of the candidate of \<open>text/plain; q=5\<close> is
  5, which is above 1.
\<close>

theorem weight_above_one_counterexample:
  "candidates ''text/plain; q=5'' = [\<lparr>MediaType = ''text/plain'', RelativeWeight = Finite 5\<rparr>]
   \<and> f64_gt (Finite 5) (Finite 1)"
  by (simp add: candidates_plain_5 f64_gt_def)

subsection \<open>Weight zero\<close>

text \<open>
  C10. A header whose only candidate is a supported type with the weight 0 resolves
  to the mapped type of that candidate, not to the default: \<open>application/json;q=0\<close>
  resolves to \<open>application/json\<close>.
\<close>

theorem zero_weight_not_excluded:
  "candidates accept = [a] \<Longrightarrow> RelativeWeight a = Finite 0 \<Longrightarrow> supported a
     \<Longrightarrow> Some (mostAcceptable accept) = supportTable (MediaType a)"
  by (simp add: mostAcceptable_single supported_def supportTable_def split: if_splits)

theorem zero_weight_not_excluded_witness:
  "candidates ''application/json;q=0''
     = [\<lparr>MediaType = ''application/json'', RelativeWeight = Finite 0\<rparr>]
   \<and> supported \<lparr>MediaType = ''application/json'', RelativeWeight = Finite 0\<rparr>
   \<and> mostAcceptable ''application/json;q=0'' = ''application/json''"
proof -
  let ?a = "\<lparr>MediaType = ''application/json'', RelativeWeight = Finite 0\<rparr>"
  have s: "supported ?a"
    by (simp add: supported_def supportTable_def)
  from zero_weight_not_excluded [OF candidates_json_0 _ s]
  have "Some (mostAcceptable ''application/json;q=0'') = supportTable ''application/json''"
    by simp
  then have "mostAcceptable ''application/json;q=0'' = ''application/json''"
    by (simp add: supportTable_def)
  with candidates_json_0 s show ?thesis by (intro conjI)
qed

section \<open>Startup\<close>

lemma pathToTitle_MIT: "pathToTitle ''licenses/MIT.txt'' = ''MIT''"
  by (simp add: pathToTitle_def Base_def Ext_def TrimSuffix_def)

lemma pathToURL_MIT: "pathToURL ''licenses/MIT.txt'' = ''/mit''"
  by (simp add: pathToURL_def pathToTitle_MIT utf8_eval lower_eval)

lemma appendString_MIT: "appendString ''MIT'' = [CHR 0x22] @ ''MIT'' @ [CHR 0x22]"
  by (simp add: appendString_def htmlSafe_def)

lemma appendString_text: "appendString ''MIT License text'' = [CHR 0x22] @ ''MIT License text'' @ [CHR 0x22]"
  by (simp add: appendString_def htmlSafe_def)

lemma appendString_url: "appendString ''/mit'' = [CHR 0x22] @ ''/mit'' @ [CHR 0x22]"
  by (simp add: appendString_def htmlSafe_def)

lemma Marshal_MIT: "Marshal mitLicense = Inr mitJSON"
  by (simp add: Marshal_def mitLicense_def mitJSON_def jsonKey_def appendString_MIT
        appendString_text appendString_url)

lemma handlerFor_MIT:
  "handlerFor ''licenses/MIT.txt'' (licenseFile indexFails) failingIndex
     = Inr (licenseHandler ''MIT License text'' ''<h1>MIT</h1>'' mitJSON, mitLicense)"
proof -
  have "toJSON mitLicense = Inr mitJSON"
    by (simp add: toJSON_def Marshal_MIT)
  moreover have "toHTML mitLicense failingIndex = Inr ''<h1>MIT</h1>''"
    by (simp add: toHTML_def failingIndex_def mitLicense_def)
  ultimately show ?thesis
    by (simp add: handlerFor_def indexFails_def pathToTitle_MIT pathToURL_MIT
          flip: mitLicense_def)
qed

lemma registerLicenses_MIT:
  "registerLicenses [''licenses/MIT.txt''] indexFails failingIndex [] []
     = Returned ([(''GET /mit'', licenseHandler ''MIT License text'' ''<h1>MIT</h1>'' mitJSON)],
         [mitLicense])"
proof -
  have "\<not> muxRefuses indexFails (map fst []) (''GET '' @ URL mitLicense)"
    by (simp add: indexFails_def)
  moreover have "''GET '' @ URL mitLicense = ''GET /mit''"
    by (simp add: mitLicense_def)
  ultimately show ?thesis
    by (simp add: handlerFor_MIT)
qed

text \<open>
  C9 does not hold of the code. \<open>appHandler\<close> fails when the templates do not
  parse, when a license file cannot be read and when the license template does not
  render, but \<open>newPublicHandler\<close> drops the error of the index template: at the
  startup \<open>indexFails\<close> the index template fails, and \<open>appHandler\<close> returns
  its handler without an error, with the part of the page written before the
  failure as the index page.
\<close>

theorem appHandler_drops_index_error:
  "snd (executeIndex failingIndex [mitLicense])
     = Some (Reported ''index.html.tmpl: cannot evaluate field'')
   \<and> appHandler indexFails
     = Returned
         \<lparr>routes = [(''GET /mit'', licenseHandler ''MIT License text'' ''<h1>MIT</h1>'' mitJSON)],
          indexPage = ''<ul>''\<rparr>"
proof -
  have e: "snd (executeIndex failingIndex [mitLicense])
     = Some (Reported ''index.html.tmpl: cannot evaluate field'')"
    by (simp add: failingIndex_def)
  have t: "parsedTemplates indexFails = Inr failingIndex"
    and u: "publicSub indexFails = None"
    and g: "licenseGlob indexFails = Inr [''licenses/MIT.txt'']"
    by (simp_all add: indexFails_def)
  have m: "\<not> muxRefuses indexFails
             (map fst [(''GET /mit'',
                licenseHandler ''MIT License text'' ''<h1>MIT</h1>'' mitJSON)]) ''/''"
    by (simp add: indexFails_def)
  have n: "newPublicHandler failingIndex [mitLicense] = ''<ul>''"
    by (simp add: newPublicHandler_def failingIndex_def)
  have "appHandler indexFails
     = Returned
         \<lparr>routes = [(''GET /mit'', licenseHandler ''MIT License text'' ''<h1>MIT</h1>'' mitJSON)],
          indexPage = ''<ul>''\<rparr>"
    using m
    by (simp add: appHandler_def t u g registerLicenses_MIT n del: registerLicenses.simps)
  with e show ?thesis by (intro conjI)
qed

section \<open>The JSON rendering\<close>

subsection \<open>UTF-8 encodings\<close>

text \<open>
  What \<open>DecodeRuneInString\<close> returns for each leading byte, and the bytes of the
  two line separators U+2028 and U+2029.
\<close>

lemma mod_offset:
  fixes n :: nat
  assumes "k * m \<le> n" "n < k * m + m"
  shows "n mod m = n - k * m"
proof -
  from assms(1) obtain r where r: "n = k * m + r"
    using le_Suc_ex by blast
  with assms(2) have "r < m" by simp
  with r show ?thesis by simp
qed

lemma cont_mod: "0x80 \<le> n \<Longrightarrow> n \<le> 0xBF \<Longrightarrow> n mod 0x40 = n - (0x80::nat)"
  using mod_offset [of 2 "0x40" n] by simp

lemma lead3_mod: "0xE0 \<le> n \<Longrightarrow> n < 0xF0 \<Longrightarrow> n mod 0x10 = n - (0xE0::nat)"
  using mod_offset [of 14 "0x10" n] by simp

lemma lead4_mod: "0xF0 \<le> n \<Longrightarrow> n \<le> 0xF4 \<Longrightarrow> n mod 8 = n - (0xF0::nat)"
  using mod_offset [of 30 8 n] by simp

lemma Decode_short1:
  assumes "0x80 \<le> byte b"
  shows "DecodeRuneInString [b] = (RuneError, 1)"
  using assms by (simp add: DecodeRuneInString_def Let_def)

lemma Decode_valid_high:
  assumes hi: "0x80 \<le> byte b" and d: "DecodeRuneInString (b # s) = (c, w)"
    and ok: "\<not> (c = RuneError \<and> w = 1)"
  shows "1 \<le> w \<and> w - 1 \<le> length s \<and> list_all (\<lambda>x. 0x80 \<le> byte x) (take (w - 1) s)"
proof (cases s)
  case Nil
  with hi d ok show ?thesis by (simp add: Decode_short1)
next
  case s1: (Cons c1 t1)
  show ?thesis
  proof (cases t1)
    case Nil
    with s1 hi d ok show ?thesis
      by (auto simp: DecodeRuneInString_def Let_def split: if_splits)
  next
    case s2: (Cons c2 t2)
    show ?thesis
    proof (cases t2)
      case Nil
      with s1 s2 hi d ok show ?thesis
        by (auto simp: DecodeRuneInString_def Let_def split: if_splits)
    next
      case s3: (Cons c3 t3)
      with s1 s2 hi d ok show ?thesis
        by (auto simp: DecodeRuneInString_def Let_def split: if_splits)
    qed
  qed
qed

lemma Decode_low_lead:
  "0x80 \<le> byte b \<Longrightarrow> byte b < 0xC2 \<or> 0xF4 < byte b \<Longrightarrow>
     DecodeRuneInString (b # s) = (RuneError, 1)"
  by (auto simp: DecodeRuneInString_def Let_def)

lemma Decode_2:
  "0xC2 \<le> byte b \<Longrightarrow> byte b < 0xE0 \<Longrightarrow>
     DecodeRuneInString (b # c1 # t) =
       (if byte c1 < 0x80 \<or> 0xBF < byte c1 then (RuneError, 1)
        else ((byte b mod 0x20) * 0x40 + byte c1 mod 0x40, 2))"
  by (simp add: DecodeRuneInString_def Let_def)

lemma Decode_3:
  "0xE0 \<le> byte b \<Longrightarrow> byte b < 0xF0 \<Longrightarrow>
     DecodeRuneInString (b # c1 # c2 # t) =
       (if byte c1 < (if byte b = 0xE0 then 0xA0 else 0x80)
           \<or> (if byte b = 0xED then 0x9F else 0xBF) < byte c1
           \<or> byte c2 < 0x80 \<or> 0xBF < byte c2 then (RuneError, 1)
        else ((byte b mod 0x10) * 0x1000 + (byte c1 mod 0x40) * 0x40 + byte c2 mod 0x40, 3))"
  by (simp add: DecodeRuneInString_def Let_def)

lemma Decode_3_short:
  "0xE0 \<le> byte b \<Longrightarrow> byte b < 0xF0 \<Longrightarrow> length s < 2 \<Longrightarrow>
     DecodeRuneInString (b # s) = (RuneError, 1)"
  by (simp add: DecodeRuneInString_def Let_def)

lemma Decode_4:
  "0xF0 \<le> byte b \<Longrightarrow> byte b \<le> 0xF4 \<Longrightarrow>
     DecodeRuneInString (b # c1 # c2 # c3 # t) =
       (if byte c1 < (if byte b = 0xF0 then 0x90 else 0x80)
           \<or> (if byte b = 0xF4 then 0x8F else 0xBF) < byte c1
           \<or> byte c2 < 0x80 \<or> 0xBF < byte c2 \<or> byte c3 < 0x80 \<or> 0xBF < byte c3
        then (RuneError, 1)
        else ((byte b mod 8) * 0x40000 + (byte c1 mod 0x40) * 0x1000
                + (byte c2 mod 0x40) * 0x40 + byte c3 mod 0x40, 4))"
  by (simp add: DecodeRuneInString_def Let_def)

lemma Decode_4_short:
  "0xF0 \<le> byte b \<Longrightarrow> byte b \<le> 0xF4 \<Longrightarrow> length s < 3 \<Longrightarrow>
     DecodeRuneInString (b # s) = (RuneError, 1)"
  by (simp add: DecodeRuneInString_def Let_def)

lemma Decode_2_short:
  "0xC2 \<le> byte b \<Longrightarrow> byte b < 0xE0 \<Longrightarrow> DecodeRuneInString [b] = (RuneError, 1)"
  by (simp add: DecodeRuneInString_def Let_def)

lemma split_digits:
  fixes a r m v :: nat
  assumes "r < m" "a * m + r = v"
  shows "a = v div m \<and> r = v mod m"
  using assms by auto

lemma char_of_byte: "byte x = n \<Longrightarrow> x = char_of n"
  by (metis char_of_char)

lemma offset_eq: "a \<le> x \<Longrightarrow> (x = a + k) = (x - a = (k::nat))"
  by auto

lemma three_byte_value:
  fixes x y z :: nat
  assumes r: "0xE0 \<le> x" "x < 0xF0" "0x80 \<le> y" "y \<le> 0xBF" "0x80 \<le> z" "z \<le> 0xBF"
    and v: "(x mod 0x10) * 0x1000 + (y mod 0x40) * 0x40 + z mod 0x40 = v"
  shows "x = 0xE0 + v div 0x1000 \<and> y = 0x80 + v mod 0x1000 div 0x40 \<and> z = 0x80 + v mod 0x40"
proof -
  let ?a = "x - 0xE0" and ?b = "y - 0x80" and ?c = "z - 0x80"
  from r v have v': "?a * 0x1000 + (?b * 0x40 + ?c) = v"
    by (simp add: cont_mod lead3_mod)
  from r have c: "?c < 0x40" and b: "?b < 0x40" by simp_all
  from b c have "?b * 0x40 + ?c < 0x1000" by simp
  from split_digits [OF this v'] have a: "?a = v div 0x1000" and bc: "?b * 0x40 + ?c = v mod 0x1000"
    by simp_all
  from split_digits [OF c bc] have "?b = v mod 0x1000 div 0x40" "?c = v mod 0x1000 mod 0x40"
    by simp_all
  moreover have "v mod 0x1000 mod 0x40 = v mod 0x40"
    by (simp add: mod_mod_cancel)
  ultimately have "?a = v div 0x1000" "?b = v mod 0x1000 div 0x40" "?c = v mod 0x40"
    using a by simp_all
  with r(1,3,5) show ?thesis
    by (simp only: offset_eq [symmetric])
qed

lemma four_byte_value:
  fixes x y :: nat
  assumes "0xF0 \<le> x" "x \<le> 0xF4" "x = 0xF0 \<longrightarrow> 0x90 \<le> y" "0x80 \<le> y" "y \<le> 0xBF"
  shows "0x10000 \<le> (x mod 8) * 0x40000 + (y mod 0x40) * 0x1000 + u"
proof (cases "x = 0xF0")
  case True
  with assms have "0x10 \<le> y mod 0x40" by (simp add: cont_mod)
  then show ?thesis by simp
next
  case False
  with assms have "1 \<le> x mod 8" by (simp add: lead4_mod)
  then show ?thesis by simp
qed

lemma two_byte_value:
  fixes x y :: nat
  shows "(x mod 0x20) * 0x40 + y mod 0x40 < 0x800"
proof -
  have "x mod 0x20 \<le> 0x1F" "y mod 0x40 < 0x40"
    by simp_all
  then show ?thesis by simp
qed

lemma Decode_line_separators:
  assumes d: "DecodeRuneInString (b # s) = (c, w)" and c: "c = 0x2028 \<or> c = 0x2029"
  shows "w = 3 \<and> take w (b # s) = EncodeRune c"
proof -
  from c have ne: "c \<noteq> RuneError" and big: "0x800 \<le> c" and small: "c < 0x10000"
    by (auto simp: RuneError_def)
  have hi: "0x80 \<le> byte b"
  proof (rule ccontr)
    assume "\<not> 0x80 \<le> byte b"
    then have "byte b < 0x80" by simp
    with d Decode_ascii [of b s] big show False by simp
  qed
  have lead: "0xC2 \<le> byte b \<and> byte b \<le> 0xF4"
  proof (rule ccontr)
    assume "\<not> (0xC2 \<le> byte b \<and> byte b \<le> 0xF4)"
    then have "byte b < 0xC2 \<or> 0xF4 < byte b" by auto
    from Decode_low_lead [OF hi this, of s] d ne show False by simp
  qed
  consider (two) "byte b < 0xE0" | (three) "0xE0 \<le> byte b" "byte b < 0xF0" | (four) "0xF0 \<le> byte b"
    by linarith
  then show ?thesis
  proof cases
    case two
    show ?thesis
    proof (cases s)
      case Nil
      with Decode_2_short [of b] lead two d ne show ?thesis by simp
    next
      case (Cons c1 t)
      with Decode_2 [of b c1 t] lead two d ne
      have "c = (byte b mod 0x20) * 0x40 + byte c1 mod 0x40"
        by (simp split: if_splits)
      with two_byte_value [of "byte b" "byte c1"] big show ?thesis by simp
    qed
  next
    case three
    show ?thesis
    proof (cases "length s < 2")
      case True
      from Decode_3_short [OF three True] d ne show ?thesis by simp
    next
      case False
      then obtain c1 c2 t where s: "s = c1 # c2 # t"
        by (cases s; cases "tl s") auto
      from Decode_3 [OF three, of c1 c2 t] d ne s
      have ok: "\<not> (byte c1 < (if byte b = 0xE0 then 0xA0 else 0x80)
           \<or> (if byte b = 0xED then 0x9F else 0xBF) < byte c1
           \<or> byte c2 < 0x80 \<or> 0xBF < byte c2)"
        and v: "(byte b mod 0x10) * 0x1000 + (byte c1 mod 0x40) * 0x40 + byte c2 mod 0x40 = c"
        and w: "w = 3"
        by (auto split: if_splits)
      from ok have r: "0x80 \<le> byte c1" "byte c1 \<le> 0xBF" "0x80 \<le> byte c2" "byte c2 \<le> 0xBF"
        by (auto split: if_splits)
      from three_byte_value [OF three r v] c
      have "byte b = 0xE2" "byte c1 = 0x80" "byte c2 = 0x80 + c mod 0x40"
        by auto
      then have "b = char_of (0xE2::nat)" "c1 = char_of (0x80::nat)"
        "c2 = char_of (0x80 + c mod 0x40)"
        by (simp_all only: char_of_byte)
      with s w c show ?thesis
        by (auto simp: EncodeRune_def)
    qed
  next
    case four
    show ?thesis
    proof (cases "length s < 3")
      case True
      from Decode_4_short [OF four _ True] lead d ne show ?thesis by simp
    next
      case False
      then obtain c1 c2 c3 t where s: "s = c1 # c2 # c3 # t"
        by (cases s; cases "tl s"; cases "tl (tl s)") auto
      from lead have l4: "byte b \<le> 0xF4" by simp
      from Decode_4 [OF four l4, of c1 c2 c3 t] d ne s
      have ok: "\<not> (byte c1 < (if byte b = 0xF0 then 0x90 else 0x80)
           \<or> (if byte b = 0xF4 then 0x8F else 0xBF) < byte c1
           \<or> byte c2 < 0x80 \<or> 0xBF < byte c2 \<or> byte c3 < 0x80 \<or> 0xBF < byte c3)"
        and v: "(byte b mod 8) * 0x40000 + (byte c1 mod 0x40) * 0x1000
                + (byte c2 mod 0x40) * 0x40 + byte c3 mod 0x40 = c"
        by (auto split: if_splits)
      from ok have "byte b = 0xF0 \<longrightarrow> 0x90 \<le> byte c1" "0x80 \<le> byte c1" "byte c1 \<le> 0xBF"
        by (auto split: if_splits)
      from four_byte_value [OF four l4 this, of "(byte c2 mod 0x40) * 0x40 + byte c3 mod 0x40"] v small
      show ?thesis by simp
    qed
  qed
qed

subsection \<open>Escapes\<close>

text \<open>
  The decoder reads every escape \<open>appendString\<close> writes as the bytes it was
  written for.
\<close>

lemma hexDigit_all:
  "list_all (\<lambda>m. ishex (hexDigit m) \<and> unhex (hexDigit m) = m) [0..<16]"
  by code_simp

lemma hexDigit_unhex: "ishex (hexDigit n) \<and> unhex (hexDigit n) = n mod 16"
proof -
  have "n mod 16 \<in> set [0..<16]" by simp
  with hexDigit_all have "ishex (hexDigit (n mod 16)) \<and> unhex (hexDigit (n mod 16)) = n mod 16"
    unfolding list_all_iff by blast
  moreover have "hexDigit (n mod 16) = hexDigit n"
    by (simp add: hexDigit_def)
  ultimately show ?thesis by simp
qed

lemma getu4_digits:
  assumes "ishex a" "ishex b" "ishex c" "ishex d"
  shows "getu4 (a # b # c # d # r)
           = Some (unhex a * 0x1000 + unhex b * 0x100 + unhex c * 0x10 + unhex d)"
  using assms by (simp add: getu4_def)

lemma hex_literals:
  "ishex (CHR ''0'')" "unhex (CHR ''0'') = 0" "ishex (CHR ''2'')" "unhex (CHR ''2'') = 2"
  "ishex (CHR ''f'')" "unhex (CHR ''f'') = 15" "ishex (CHR ''d'')" "unhex (CHR ''d'') = 13"
  by (simp_all add: ishex_def unhex_def)

lemma getu4_byte:
  "n < 0x100 \<Longrightarrow>
     getu4 (CHR ''0'' # CHR ''0'' # hexDigit (n div 16) # hexDigit (n mod 16) # r) = Some n"
proof -
  assume n: "n < 0x100"
  have "getu4 (CHR ''0'' # CHR ''0'' # hexDigit (n div 16) # hexDigit (n mod 16) # r)
      = Some (unhex (CHR ''0'') * 0x1000 + unhex (CHR ''0'') * 0x100
              + unhex (hexDigit (n div 16)) * 0x10 + unhex (hexDigit (n mod 16)))"
    by (rule getu4_digits) (simp_all add: hex_literals hexDigit_unhex)
  moreover from n have "n div 16 mod 16 = n div 16"
    by simp
  ultimately show ?thesis
    by (simp add: hex_literals hexDigit_unhex)
qed

lemma getu4_fffd: "getu4 (CHR ''f'' # CHR ''f'' # CHR ''f'' # CHR ''d'' # r) = Some 0xFFFD"
  by (simp add: getu4_digits hex_literals)

lemma getu4_202:
  "getu4 (CHR ''2'' # CHR ''0'' # CHR ''2'' # hexDigit n # r) = Some (0x2020 + n mod 16)"
  by (simp add: getu4_digits hex_literals hexDigit_unhex)

lemma prepend_Nil: "prepend [] x = x"
  by (cases x) (auto simp: prepend_def)

lemma prepend_prepend: "prepend p (prepend q x) = prepend (p @ q) x"
  by (cases x) (auto simp: prepend_def)

lemma jsonStringBody_plain:
  "0x20 \<le> byte c \<Longrightarrow> c \<noteq> CHR 0x22 \<Longrightarrow> c \<noteq> CHR 0x5C \<Longrightarrow>
     jsonStringBody (c # r) = prepend [c] (jsonStringBody r)"
  by simp

lemma high_plain: "0x80 \<le> byte c \<Longrightarrow> 0x20 \<le> byte c \<and> c \<noteq> CHR 0x22 \<and> c \<noteq> CHR 0x5C"
  by auto

lemma jsonStringBody_high:
  "list_all (\<lambda>x. 0x80 \<le> byte x) p \<Longrightarrow> jsonStringBody (p @ r) = prepend p (jsonStringBody r)"
proof (induction p)
  case Nil
  show ?case by (simp add: prepend_Nil)
next
  case (Cons c p)
  then have c: "0x20 \<le> byte c" "c \<noteq> CHR 0x22" "c \<noteq> CHR 0x5C"
    using high_plain [of c] by simp_all
  from Cons have "jsonStringBody (p @ r) = prepend p (jsonStringBody r)" by simp
  with jsonStringBody_plain [OF c, of "p @ r"] show ?case
    by (simp add: prepend_prepend del: jsonStringBody.simps)
qed

lemma jsonStringBody_u:
  assumes "getu4 t = Some r" "r < 0xD800"
  shows "jsonStringBody (CHR 0x5C # CHR ''u'' # t) = prepend (EncodeRune r) (jsonStringBody (drop 4 t))"
  using assms by simp

lemma jsonStringBody_u_high:
  assumes "getu4 t = Some r" "0xDC00 \<le> r"
  shows "jsonStringBody (CHR 0x5C # CHR ''u'' # t) = prepend (EncodeRune r) (jsonStringBody (drop 4 t))"
  using assms by simp

lemma jsonStringBody_escape:
  assumes "unescape e = Some d" "e \<noteq> CHR ''u''"
  shows "jsonStringBody (CHR 0x5C # e # t) = prepend [d] (jsonStringBody t)"
  using assms by simp

lemma EncodeRune_ascii: "byte b < 0x80 \<Longrightarrow> EncodeRune (byte b) = [b]"
  by (simp add: EncodeRune_def)

lemma EncodeRune_fffd: "EncodeRune 0xFFFD = [CHR 0xEF, CHR 0xBF, CHR 0xBD]"
  by (simp add: EncodeRune_def char_of_def bit_iff_odd)

lemma jsonStringBody_escapeByte:
  assumes a: "byte b < 0x80"
  shows "jsonStringBody (escapeByte b @ r) = prepend [b] (jsonStringBody r)"
proof -
  consider (self) "b = CHR 0x5C \<or> b = CHR 0x22"
    | (named) "b = CHR 0x08 \<or> b = CHR 0x0C \<or> b = CHR 0x0A \<or> b = CHR 0x0D \<or> b = CHR 0x09"
    | (hex) "b \<noteq> CHR 0x5C" "b \<noteq> CHR 0x22" "b \<noteq> CHR 0x08" "b \<noteq> CHR 0x0C" "b \<noteq> CHR 0x0A"
        "b \<noteq> CHR 0x0D" "b \<noteq> CHR 0x09"
    by blast
  then show ?thesis
  proof cases
    case self
    then have "escapeByte b = [CHR 0x5C, b]" "unescape b = Some b" "b \<noteq> CHR ''u''"
      by (auto simp: escapeByte_def unescape_def)
    then show ?thesis
      using jsonStringBody_escape [of b b r] by simp
  next
    case named
    then obtain e where "escapeByte b = [CHR 0x5C, e]" "unescape e = Some b" "e \<noteq> CHR ''u''"
      by (auto simp: escapeByte_def unescape_def)
    then show ?thesis
      using jsonStringBody_escape [of e b r] by simp
  next
    case hex
    then have e: "escapeByte b = CHR 0x5C # CHR ''u'' # CHR ''0'' # CHR ''0''
        # hexDigit (byte b div 16) # hexDigit (byte b mod 16) # []"
      by (simp add: escapeByte_def)
    from a have "byte b < 0x100" by simp
    from getu4_byte [OF this, of r]
    have g: "getu4 (CHR ''0'' # CHR ''0'' # hexDigit (byte b div 16) # hexDigit (byte b mod 16) # r)
        = Some (byte b)" .
    from a have "byte b < 0xD800" by simp
    from jsonStringBody_u [OF g this] show ?thesis
      by (simp add: e EncodeRune_ascii [OF a] del: jsonStringBody.simps)
  qed
qed

text \<open>
  The replacement of an invalid byte decodes to the bytes of U+FFFD whether it is
  written as the escape or as those three bytes themselves.
\<close>

lemma replacement_either_way:
  "jsonStringBody (CHR 0x5C # CHR ''u'' # CHR ''f'' # CHR ''f'' # CHR ''f'' # CHR ''d'' # r)
     = prepend [CHR 0xEF, CHR 0xBF, CHR 0xBD] (jsonStringBody r)"
  "jsonStringBody (CHR 0xEF # CHR 0xBF # CHR 0xBD # r)
     = prepend [CHR 0xEF, CHR 0xBF, CHR 0xBD] (jsonStringBody r)"
proof -
  have "(0xDC00::nat) \<le> 0xFFFD" by simp
  from jsonStringBody_u_high [OF getu4_fffd this, of r]
  show "jsonStringBody (CHR 0x5C # CHR ''u'' # CHR ''f'' # CHR ''f'' # CHR ''f'' # CHR ''d'' # r)
     = prepend [CHR 0xEF, CHR 0xBF, CHR 0xBD] (jsonStringBody r)"
    by (simp add: EncodeRune_fffd del: jsonStringBody.simps)
  have "list_all (\<lambda>x. 0x80 \<le> byte x) [CHR 0xEF, CHR 0xBF, CHR 0xBD]" by simp
  from jsonStringBody_high [OF this, of r]
  show "jsonStringBody (CHR 0xEF # CHR 0xBF # CHR 0xBD # r)
     = prepend [CHR 0xEF, CHR 0xBF, CHR 0xBD] (jsonStringBody r)"
    by (simp del: jsonStringBody.simps)
qed

subsection \<open>Decoding what appendString writes\<close>

text \<open>
  The string \<open>appendString\<close> writes for \<open>s\<close> decodes to \<open>s\<close> with its
  invalid bytes replaced; that is \<open>s\<close> itself exactly when \<open>s\<close> is valid UTF-8.
\<close>

lemma coerceUTF8_ascii: "byte b < 0x80 \<Longrightarrow> coerceUTF8 (b # s) = b # coerceUTF8 s"
  by (simp add: Decode_ascii RuneError_def)

lemma prepend_Some: "prepend p (Some (d, r)) = Some (p @ d, r)"
  by (simp add: prepend_def)

lemma jsonStringBody_appendStringBody:
  "jsonStringBody (appendStringBody s @ CHR 0x22 # rest) = Some (coerceUTF8 s, rest)"
proof (induction s rule: length_induct)
  case (1 s)
  then have IH: "jsonStringBody (appendStringBody ys @ CHR 0x22 # rest) = Some (coerceUTF8 ys, rest)"
    if "length ys < length s" for ys
    using that by blast
  show ?case
  proof (cases s)
    case Nil
    then show ?thesis by simp
  next
    case (Cons b src)
    show ?thesis
    proof (cases "byte b < 0x80")
      case low: True
      have ih: "jsonStringBody (appendStringBody src @ CHR 0x22 # rest) = Some (coerceUTF8 src, rest)"
        by (rule IH) (simp add: Cons)
      show ?thesis
      proof (cases "htmlSafe b")
        case True
        then have p: "0x20 \<le> byte b" "b \<noteq> CHR 0x22" "b \<noteq> CHR 0x5C"
          by (simp_all add: htmlSafe_def)
        from low True have "appendStringBody (b # src) = b # appendStringBody src"
          by simp
        with jsonStringBody_plain [OF p, of "appendStringBody src @ CHR 0x22 # rest"] ih
        show ?thesis
          by (simp add: Cons coerceUTF8_ascii [OF low] prepend_Some
                del: jsonStringBody.simps appendStringBody.simps coerceUTF8.simps)
      next
        case False
        with low have "appendStringBody (b # src) = escapeByte b @ appendStringBody src"
          by simp
        with jsonStringBody_escapeByte [OF low, of "appendStringBody src @ CHR 0x22 # rest"] ih
        show ?thesis
          by (simp add: Cons coerceUTF8_ascii [OF low] prepend_Some
                del: jsonStringBody.simps appendStringBody.simps coerceUTF8.simps)
      qed
    next
      case high: False
      then have hi: "0x80 \<le> byte b" by simp
      obtain c w where d: "DecodeRuneInString (b # src) = (c, w)"
        by (cases "DecodeRuneInString (b # src)")
      show ?thesis
      proof (cases "c = RuneError \<and> w = 1")
        case True
        have ih: "jsonStringBody (appendStringBody src @ CHR 0x22 # rest) = Some (coerceUTF8 src, rest)"
          by (rule IH) (simp add: Cons)
        from high d True have a: "appendStringBody (b # src)
            = CHR 0x5C # CHR ''u'' # CHR ''f'' # CHR ''f'' # CHR ''f'' # CHR ''d'' # appendStringBody src"
          by simp
        from d True have k: "coerceUTF8 (b # src) = [CHR 0xEF, CHR 0xBF, CHR 0xBD] @ coerceUTF8 src"
          by simp
        have "(0xDC00::nat) \<le> 0xFFFD" by simp
        from jsonStringBody_u_high [OF getu4_fffd this, of "appendStringBody src @ CHR 0x22 # rest"] ih
        show ?thesis
          by (simp add: Cons a k EncodeRune_fffd prepend_Some
                del: jsonStringBody.simps appendStringBody.simps coerceUTF8.simps)
      next
        case ok: False
        from Decode_valid_high [OF hi d ok]
        have w: "1 \<le> w" "w - 1 \<le> length src"
          and h: "list_all (\<lambda>x. 0x80 \<le> byte x) (take (w - 1) src)"
          by simp_all
        have ih: "jsonStringBody (appendStringBody (drop (w - 1) src) @ CHR 0x22 # rest)
            = Some (coerceUTF8 (drop (w - 1) src), rest)"
          by (rule IH) (simp add: Cons)
        from d ok have k: "coerceUTF8 (b # src) = take w (b # src) @ coerceUTF8 (drop (w - 1) src)"
          by simp
        show ?thesis
        proof (cases "c = 0x2028 \<or> c = 0x2029")
          case True
          from Decode_line_separators [OF d True]
          have e: "take w (b # src) = EncodeRune c" by (rule conjunct2)
          from high d ok True have a: "appendStringBody (b # src)
              = CHR 0x5C # CHR ''u'' # CHR ''2'' # CHR ''0'' # CHR ''2'' # hexDigit (c mod 16)
                # appendStringBody (drop (w - 1) src)"
            by simp
          from True have "0x2020 + c mod 16 mod 16 = c" by auto
          with getu4_202 [of "c mod 16" "appendStringBody (drop (w - 1) src) @ CHR 0x22 # rest"]
          have g: "getu4 (CHR ''2'' # CHR ''0'' # CHR ''2'' # hexDigit (c mod 16)
                # appendStringBody (drop (w - 1) src) @ CHR 0x22 # rest) = Some c"
            by simp
          from True have "c < 0xD800" by auto
          from jsonStringBody_u [OF g this] ih
          show ?thesis
            by (simp add: Cons a k e prepend_Some
                  del: jsonStringBody.simps appendStringBody.simps coerceUTF8.simps)
        next
          case False
          with high d ok have a: "appendStringBody (b # src)
              = take w (b # src) @ appendStringBody (drop (w - 1) src)"
            by simp
          from w(1) have t: "take w (b # src) = b # take (w - 1) src"
            by (cases w) simp_all
          with hi h have "list_all (\<lambda>x. 0x80 \<le> byte x) (take w (b # src))"
            by simp
          from jsonStringBody_high [OF this, of "appendStringBody (drop (w - 1) src) @ CHR 0x22 # rest"] ih
          show ?thesis
            by (simp add: Cons a k prepend_Some
                  del: jsonStringBody.simps appendStringBody.simps coerceUTF8.simps)
        qed
      qed
    qed
  qed
qed

lemma Decode_width: "1 \<le> snd (DecodeRuneInString (b # s))"
  by (simp add: DecodeRuneInString_def Let_def)

lemma coerceUTF8_valid: "ValidString s \<Longrightarrow> coerceUTF8 s = s"
proof (induction s rule: length_induct)
  case (1 s)
  show ?case
  proof (cases s)
    case Nil
    then show ?thesis by simp
  next
    case (Cons b t)
    obtain c w where d: "DecodeRuneInString (b # t) = (c, w)"
      by (cases "DecodeRuneInString (b # t)")
    from Decode_width [of b t] d have w: "1 \<le> w" by simp
    from 1(2) Cons d have ok: "\<not> (c = RuneError \<and> w = 1)" and v: "ValidString (drop (w - 1) t)"
      by simp_all
    from 1(1) v Cons have "coerceUTF8 (drop (w - 1) t) = drop (w - 1) t"
      by simp
    moreover from w have "take w (b # t) = b # take (w - 1) t"
      by (cases w) simp_all
    moreover from d ok have "coerceUTF8 (b # t) = take w (b # t) @ coerceUTF8 (drop (w - 1) t)"
      by simp
    ultimately show ?thesis using Cons by (simp del: coerceUTF8.simps)
  qed
qed

lemma ValidString_ascii: "list_all (\<lambda>c. byte c < 0x80) s \<Longrightarrow> ValidString s"
  by (induction s) (simp_all add: Decode_ascii RuneError_def)

lemma Decode_fffd:
  "DecodeRuneInString (CHR 0xEF # CHR 0xBF # CHR 0xBD # t) = (RuneError, 3)"
  by (simp add: DecodeRuneInString_def Let_def RuneError_def)

lemma Decode_width_le:
  assumes d: "DecodeRuneInString (b # s) = (c, w)" and ok: "\<not> (c = RuneError \<and> w = 1)"
  shows "1 \<le> w \<and> w - 1 \<le> length s"
proof (cases "byte b < 0x80")
  case True
  with d Decode_ascii [of b s] show ?thesis by simp
next
  case False
  then have "0x80 \<le> byte b" by simp
  from Decode_valid_high [OF this d ok] show ?thesis by simp
qed

lemma ValidString_coerceUTF8: "coerceUTF8 s = s \<Longrightarrow> ValidString s"
proof (induction s rule: length_induct)
  case (1 s)
  show ?case
  proof (cases s)
    case Nil
    then show ?thesis by simp
  next
    case (Cons b t)
    obtain c w where d: "DecodeRuneInString (b # t) = (c, w)"
      by (cases "DecodeRuneInString (b # t)")
    show ?thesis
    proof (cases "c = RuneError \<and> w = 1")
      case True
      with d have "coerceUTF8 (b # t) = CHR 0xEF # CHR 0xBF # CHR 0xBD # coerceUTF8 t"
        by simp
      with 1(2) Cons have "b # t = CHR 0xEF # CHR 0xBF # CHR 0xBD # coerceUTF8 t"
        by simp
      then have "DecodeRuneInString (b # t) = (RuneError, 3)"
        by (simp only: Decode_fffd)
      with d True show ?thesis by simp
    next
      case ok: False
      from Decode_width_le [OF d ok] have w: "1 \<le> w" "w - 1 \<le> length t"
        by simp_all
      from d ok have k: "coerceUTF8 (b # t) = take w (b # t) @ coerceUTF8 (drop (w - 1) t)"
        by simp
      from w(1) have t: "take w (b # t) = b # take (w - 1) t"
        by (cases w) simp_all
      from 1(2) Cons k t have "take (w - 1) t @ coerceUTF8 (drop (w - 1) t) = t"
        by (simp del: coerceUTF8.simps)
      then have "take (w - 1) t @ coerceUTF8 (drop (w - 1) t) = take (w - 1) t @ drop (w - 1) t"
        by simp
      then have e: "coerceUTF8 (drop (w - 1) t) = drop (w - 1) t"
        by (simp only: same_append_eq)
      from 1(1) Cons have "coerceUTF8 (drop (w - 1) t) = drop (w - 1) t
          \<longrightarrow> ValidString (drop (w - 1) t)"
        by simp
      with e have "ValidString (drop (w - 1) t)" by simp
      with d ok Cons show ?thesis by simp
    qed
  qed
qed

subsection \<open>The object toJSON returns\<close>

lemma htmlSafe_ascii: "htmlSafe c \<Longrightarrow> byte c < 0x80"
  by (simp add: htmlSafe_def)

lemma appendStringBody_safe: "list_all htmlSafe s \<Longrightarrow> appendStringBody s = s"
  by (induction s) (simp_all add: htmlSafe_ascii)

lemma coerceUTF8_safe: "list_all htmlSafe s \<Longrightarrow> coerceUTF8 s = s"
proof -
  assume "list_all htmlSafe s"
  then have "list_all (\<lambda>c. byte c < 0x80) s"
    using htmlSafe_ascii by (auto simp: list_all_iff)
  then show ?thesis
    by (rule coerceUTF8_valid [OF ValidString_ascii])
qed

lemma skipSpace_quote: "skipSpace (CHR 0x22 # s) = CHR 0x22 # s"
  by (simp add: skipSpace_def)

lemma jsonString_appendString:
  "jsonString (appendString s @ rest) = Some (coerceUTF8 s, rest)"
  by (simp add: jsonString_def appendString_def skipSpace_quote jsonStringBody_appendStringBody
        del: jsonStringBody.simps)

lemma jsonKey_appendString: "list_all htmlSafe k \<Longrightarrow> jsonKey k = appendString k @ '':''"
  by (simp add: jsonKey_def appendString_def appendStringBody_safe)

lemma jsonString_jsonKey:
  "list_all htmlSafe k \<Longrightarrow> jsonString (jsonKey k @ rest) = Some (k, CHR '':'' # rest)"
  using jsonString_appendString [of k "CHR '':'' # rest"]
  by (simp add: jsonKey_appendString coerceUTF8_safe)

lemma skipSpace_punct:
  "skipSpace (CHR '':'' # s) = CHR '':'' # s" "skipSpace (CHR '','' # s) = CHR '','' # s"
  "skipSpace (CHR ''}'' # s) = CHR ''}'' # s" "skipSpace (CHR ''{'' # s) = CHR ''{'' # s"
  "skipSpace [] = []"
  by (simp_all add: skipSpace_def)

lemma jsonMembers_last:
  assumes "list_all htmlSafe k"
  shows "jsonMembers (jsonKey k @ appendString v @ CHR ''}'' # rest) = Some ([(k, coerceUTF8 v)], rest)"
  by (subst jsonMembers.simps)
     (simp add: jsonString_jsonKey [OF assms] skipSpace_punct jsonString_appendString)

lemma jsonMembers_more:
  assumes "list_all htmlSafe k"
  shows "jsonMembers (jsonKey k @ appendString v @ CHR '','' # following) =
           (case jsonMembers following of
              None \<Rightarrow> None
            | Some (ms, rest) \<Rightarrow> Some ((k, coerceUTF8 v) # ms, rest))"
  by (subst jsonMembers.simps)
     (simp add: jsonString_jsonKey [OF assms] skipSpace_punct jsonString_appendString)

lemma key_safe:
  "list_all htmlSafe ''title''" "list_all htmlSafe ''content''" "list_all htmlSafe ''url''"
  by (simp_all add: htmlSafe_def)

lemma jsonObject_members:
  "jsonMembers (CHR 0x22 # t) = Some (ms, []) \<Longrightarrow>
     jsonObject (CHR ''{'' # CHR 0x22 # t) = Some ms"
  by (simp add: jsonObject_def skipSpace_punct skipSpace_quote)

lemma jsonObject_Marshal:
  "Marshal l = Inr b \<Longrightarrow>
     jsonObject b = Some [(''title'', coerceUTF8 (Title l)), (''content'', coerceUTF8 (Text l)),
                          (''url'', coerceUTF8 (URL l))]"
proof -
  assume "Marshal l = Inr b"
  then have b: "b = CHR ''{'' # jsonKey ''title'' @ appendString (Title l)
          @ CHR '','' # jsonKey ''content'' @ appendString (Text l)
          @ CHR '','' # jsonKey ''url'' @ appendString (URL l) @ CHR ''}'' # []"
    by (simp add: Marshal_def)
  let ?t = "jsonKey ''title'' @ appendString (Title l)
          @ CHR '','' # jsonKey ''content'' @ appendString (Text l)
          @ CHR '','' # jsonKey ''url'' @ appendString (URL l) @ CHR ''}'' # []"
  have m3: "jsonMembers (jsonKey ''url'' @ appendString (URL l) @ CHR ''}'' # [])
      = Some ([(''url'', coerceUTF8 (URL l))], [])"
    by (rule jsonMembers_last [OF key_safe(3)])
  have m2: "jsonMembers (jsonKey ''content'' @ appendString (Text l)
          @ CHR '','' # jsonKey ''url'' @ appendString (URL l) @ CHR ''}'' # [])
      = Some ([(''content'', coerceUTF8 (Text l)), (''url'', coerceUTF8 (URL l))], [])"
    by (simp only: jsonMembers_more [OF key_safe(2)] m3 option.case prod.case)
  have m1: "jsonMembers ?t
      = Some ([(''title'', coerceUTF8 (Title l)), (''content'', coerceUTF8 (Text l)),
               (''url'', coerceUTF8 (URL l))], [])"
    by (simp only: jsonMembers_more [OF key_safe(1)] m2 option.case prod.case)
  obtain t where t: "?t = CHR 0x22 # t"
    by (simp add: jsonKey_def)
  from m1 have "jsonObject (CHR ''{'' # CHR 0x22 # t)
      = Some [(''title'', coerceUTF8 (Title l)), (''content'', coerceUTF8 (Text l)),
              (''url'', coerceUTF8 (URL l))]"
    unfolding t by (rule jsonObject_members)
  then show ?thesis
    unfolding b t .
qed

lemma decodedMembers_eq:
  "decodedMembers l = Some [(''title'', coerceUTF8 (Title l)), (''content'', coerceUTF8 (Text l)),
                            (''url'', coerceUTF8 (URL l))]"
proof -
  have "Marshal l = Inr (projr (Marshal l))"
    by (simp add: Marshal_def)
  from jsonObject_Marshal [OF this] show ?thesis
    by (simp add: decodedMembers_def toJSON_def Marshal_def)
qed

lemma decodedContent_eq: "decodedContent l = Some (coerceUTF8 (Text l))"
  using decodedMembers_eq [of l]
  by (simp add: decodedContent_def decodedMembers_def contentOf_def toJSON_def Marshal_def)

text \<open>
  C8 (as amended). For every \<open>LicenseData\<close> value \<open>toJSON\<close> returns, without an
  error, a JSON object with exactly the three string members \<open>title\<close>,
  \<open>content\<close> and \<open>url\<close>, in this order, and each value decodes to the field
  with every byte that does not belong to a valid UTF-8 encoding replaced by U+FFFD.
  So the decoded \<open>content\<close> equals \<open>Text\<close> byte for byte when \<open>Text\<close> is
  valid UTF-8, and only then.
\<close>

theorem toJSON_round_trip:
  "\<not> isl (toJSON l)
   \<and> decodedMembers l
       = Some [(''title'', coerceUTF8 (Title l)), (''content'', coerceUTF8 (Text l)),
               (''url'', coerceUTF8 (URL l))]
   \<and> decodedContent l = Some (coerceUTF8 (Text l))
   \<and> (ValidString (Text l) \<longrightarrow> decodedContent l = Some (Text l))
   \<and> (decodedContent l = Some (Text l) \<longrightarrow> ValidString (Text l))"
proof (intro conjI impI)
  show "\<not> isl (toJSON l)"
    by (simp add: toJSON_def Marshal_def)
  show "decodedMembers l
       = Some [(''title'', coerceUTF8 (Title l)), (''content'', coerceUTF8 (Text l)),
               (''url'', coerceUTF8 (URL l))]"
    by (rule decodedMembers_eq)
  show "decodedContent l = Some (coerceUTF8 (Text l))"
    by (rule decodedContent_eq)
next
  assume "ValidString (Text l)"
  then show "decodedContent l = Some (Text l)"
    by (simp add: decodedContent_eq coerceUTF8_valid)
next
  assume "decodedContent l = Some (Text l)"
  then have "coerceUTF8 (Text l) = Text l"
    by (simp add: decodedContent_eq)
  then show "ValidString (Text l)"
    by (rule ValidString_coerceUTF8)
qed

text \<open>
  The text of \<open>mitLicense\<close> is valid UTF-8, and the three members decode to its
  three fields.
\<close>

theorem toJSON_round_trip_witness:
  "ValidString (Text mitLicense)
   \<and> decodedContent mitLicense = Some ''MIT License text''
   \<and> decodedMembers mitLicense
       = Some [(''title'', ''MIT''), (''content'', ''MIT License text''), (''url'', ''/mit'')]"
proof -
  have a: "list_all (\<lambda>c. byte c < 0x80) ''MIT License text''"
    "list_all (\<lambda>c. byte c < 0x80) ''MIT''" "list_all (\<lambda>c. byte c < 0x80) ''/mit''"
    by simp_all
  have t: "Text mitLicense = ''MIT License text''" "Title mitLicense = ''MIT''"
    "URL mitLicense = ''/mit''"
    by (simp_all add: mitLicense_def)
  have v: "ValidString (Text mitLicense)"
    unfolding t by (rule ValidString_ascii [OF a(1)])
  have c: "coerceUTF8 ''MIT'' = ''MIT''" "coerceUTF8 ''/mit'' = ''/mit''"
    "coerceUTF8 ''MIT License text'' = ''MIT License text''"
    by (rule coerceUTF8_valid [OF ValidString_ascii], rule a)+
  note inst = toJSON_round_trip [of mitLicense]
  from inst v have "decodedContent mitLicense = Some (Text mitLicense)"
    by blast
  moreover from inst have "decodedMembers mitLicense
       = Some [(''title'', coerceUTF8 (Title mitLicense)),
               (''content'', coerceUTF8 (Text mitLicense)),
               (''url'', coerceUTF8 (URL mitLicense))]"
    by blast
  ultimately show ?thesis using v
    by (simp only: t c simp_thms)
qed

text \<open>
  C8 as it is stated fails. The text of \<open>invalidLicense\<close> is the single byte FF;
  the decoded \<open>content\<close> is the three bytes EF BF BD of U+FFFD, not the text.
\<close>

theorem invalid_text_counterexample:
  "Text invalidLicense = [CHR 0xFF]
   \<and> decodedContent invalidLicense = Some [CHR 0xEF, CHR 0xBF, CHR 0xBD]"
proof -
  have t: "Text invalidLicense = [CHR 0xFF]"
    by (simp add: invalidLicense_def)
  have "DecodeRuneInString [CHR 0xFF] = (RuneError, 1)"
    by (simp add: DecodeRuneInString_def Let_def)
  then have "coerceUTF8 [CHR 0xFF] = [CHR 0xEF, CHR 0xBF, CHR 0xBD]"
    by simp
  with t show ?thesis
    by (simp add: decodedContent_eq)
qed

end
